theory Spec2Isabelle
  imports Main "HOL-Library.Sublist"
begin

section \<open>Python values\<close>

text \<open>
  The exceptions that \<^verbatim>\<open>src/scripts/citations.py\<close> can raise, as values. The first four
  are raised by the Python operations of the module itself (subscripting, attribute
  access, list indexing); \<open>Raised e\<close> is an exception that comes out of a call into a
  library.
\<close>

datatype lib_error =
    BinasciiError
  | JSONDecodeError
  | ValueError string
  | OtherError string

datatype error =
    KeyError string
  | TypeError
  | AttributeError
  | IndexError
  | Raised lib_error

definition lib :: "lib_error + 'a \<Rightarrow> error + 'a" where
  "lib r = (case r of Inl e \<Rightarrow> Inl (Raised e) | Inr x \<Rightarrow> Inr x)"

text \<open>
  What \<^verbatim>\<open>json.loads\<close> returns. A dict is an association list in insertion order whose
  first binding of a key is the binding. A float is a mantissa and a binary exponent; the
  module never looks inside a number.
\<close>

datatype json =
    JNull
  | JBool bool
  | JInt int
  | JFloat int int
  | JStr string
  | JArr "json list"
  | JObj "(string \<times> json) list"

text \<open>\<^verbatim>\<open>value[key]\<close> with a string key: only a dict accepts it.\<close>

fun getitem :: "json \<Rightarrow> string \<Rightarrow> error + json" where
  "getitem (JObj kvs) k = (case map_of kvs k of None \<Rightarrow> Inl (KeyError k) | Some v \<Rightarrow> Inr v)"
| "getitem JNull k = Inl TypeError"
| "getitem (JBool b) k = Inl TypeError"
| "getitem (JInt n) k = Inl TypeError"
| "getitem (JFloat m e) k = Inl TypeError"
| "getitem (JStr s) k = Inl TypeError"
| "getitem (JArr xs) k = Inl TypeError"

fun dict_keys :: "(string \<times> json) list \<Rightarrow> string list" where
  "dict_keys [] = []"
| "dict_keys ((k, v) # kvs) = k # filter (\<lambda>k'. k' \<noteq> k) (dict_keys kvs)"

text \<open>
  \<^verbatim>\<open>for x in value\<close>: a list gives its elements, a dict its keys, a string its
  characters; nothing else is iterable.
\<close>

fun py_iter :: "json \<Rightarrow> error + json list" where
  "py_iter (JArr xs) = Inr xs"
| "py_iter (JObj kvs) = Inr (map JStr (dict_keys kvs))"
| "py_iter (JStr s) = Inr (map (\<lambda>c. JStr [c]) s)"
| "py_iter JNull = Inl TypeError"
| "py_iter (JBool b) = Inl TypeError"
| "py_iter (JInt n) = Inl TypeError"
| "py_iter (JFloat m e) = Inl TypeError"

section \<open>The document tree\<close>

text \<open>
  A \<^verbatim>\<open>bs4\<close> tree. An attribute value is a string, or a list of strings for the
  multi-valued attributes (\<^verbatim>\<open>class\<close>). The \<^verbatim>\<open>BeautifulSoup\<close> object is the list of its
  top-level nodes; a node is addressed by the child indices leading to it.
\<close>

datatype attr_value = AttrStr string | AttrList "string list"

datatype node =
    NavigableString string
  | Tag string "(string \<times> attr_value) list" "node list"

type_synonym soup = "node list"
type_synonym path = "nat list"

text \<open>
  The tags below the children \<open>ns\<close> of the node at \<open>p\<close>, the first of them being child
  number \<open>i\<close>, in document order (a tag before its own descendants, before its later
  siblings): the order in which \<^verbatim>\<open>find_all\<close> visits them.
\<close>

function descendants :: "path \<Rightarrow> nat \<Rightarrow> node list \<Rightarrow> (path \<times> node) list" where
  "descendants p i [] = []"
| "descendants p i (NavigableString s # ns) = descendants p (Suc i) ns"
| "descendants p i (Tag n a cs # ns) =
     (p @ [i], Tag n a cs) # descendants (p @ [i]) 0 cs @ descendants p (Suc i) ns"
  by pat_completeness auto
termination
  by (relation "measure (\<lambda>(p, i, ns). size_list size ns)") auto

fun join_ws :: "string list \<Rightarrow> string" where
  "join_ws [] = []"
| "join_ws [x] = x"
| "join_ws (x # y # ys) = x @ '' '' @ join_ws (y # ys)"

text \<open>
  How \<^verbatim>\<open>find_all\<close> matches one attribute filter against a tag's attribute: an absent
  attribute never matches, a string must be equal, and a multi-valued attribute matches
  when one of its values is equal or when its values joined by blanks are.
\<close>

fun attr_matches :: "attr_value option \<Rightarrow> string \<Rightarrow> bool" where
  "attr_matches None m = False"
| "attr_matches (Some (AttrStr s)) m = (s = m)"
| "attr_matches (Some (AttrList vs)) m = (m \<in> set vs \<or> join_ws vs = m)"

fun tag_matches :: "string \<Rightarrow> (string \<times> string) list \<Rightarrow> node \<Rightarrow> bool" where
  "tag_matches name filters (NavigableString s) = False"
| "tag_matches name filters (Tag n a cs) =
     (n = name \<and> list_all (\<lambda>(k, m). attr_matches (map_of a k) m) filters)"

definition find_all :: "soup \<Rightarrow> string \<Rightarrow> (string \<times> string) list \<Rightarrow> (path \<times> node) list" where
  "find_all html_soup name filters =
     filter (\<lambda>(p, n). tag_matches name filters n) (descendants [] 0 html_soup)"

text \<open>\<^verbatim>\<open>tag.attrs[key]\<close>; a text node has no \<^verbatim>\<open>attrs\<close>.\<close>

fun attrs_getitem :: "node \<Rightarrow> string \<Rightarrow> error + attr_value" where
  "attrs_getitem (NavigableString s) k = Inl AttributeError"
| "attrs_getitem (Tag n a cs) k =
     (case map_of a k of None \<Rightarrow> Inl (KeyError k) | Some v \<Rightarrow> Inr v)"

text \<open>
  \<^verbatim>\<open>soup.new_tag(name, namespace, nsprefix, attrs)\<close>: the second positional parameter of
  \<^verbatim>\<open>new_tag\<close> is the namespace, which is no attribute of the element; the attributes are
  the fourth.
\<close>

definition new_tag :: "string \<Rightarrow> (string \<times> attr_value) list option \<Rightarrow> (string \<times> attr_value) list \<Rightarrow> node" where
  "new_tag name namespace attrs = Tag name attrs []"

text \<open>\<^verbatim>\<open>tag.string = s\<close>: the tag's contents become the one text node \<open>s\<close>.\<close>

fun set_string :: "node \<Rightarrow> string \<Rightarrow> node" where
  "set_string (Tag n a cs) s = Tag n a [NavigableString s]"
| "set_string (NavigableString t) s = NavigableString t"

fun append_child :: "node \<Rightarrow> node \<Rightarrow> node" where
  "append_child (Tag n a cs) c = Tag n a (cs @ [c])"
| "append_child (NavigableString t) c = NavigableString t"

text \<open>The node at a path, and the tree with the node at a path exchanged for another.\<close>

fun node_at :: "node list \<Rightarrow> path \<Rightarrow> node option" where
  "node_at ns [] = None"
| "node_at ns [i] = (if i < length ns then Some (ns ! i) else None)"
| "node_at ns (i # j # p) =
     (if i < length ns then
        (case ns ! i of
           Tag n a cs \<Rightarrow> node_at cs (j # p)
         | NavigableString s \<Rightarrow> None)
      else None)"

fun replace_at :: "node list \<Rightarrow> path \<Rightarrow> node \<Rightarrow> node list" where
  "replace_at ns [] new = ns"
| "replace_at ns [i] new = (if i < length ns then ns[i := new] else ns)"
| "replace_at ns (i # j # p) new =
     (if i < length ns then
        (case ns ! i of
           Tag n a cs \<Rightarrow> ns[i := Tag n a (replace_at cs (j # p) new)]
         | NavigableString s \<Rightarrow> ns)
      else ns)"

section \<open>The libraries\<close>

text \<open>
  What the module imports and calls: \<^verbatim>\<open>base64.b64decode\<close>, \<^verbatim>\<open>json.loads\<close>, \<^verbatim>\<open>str\<close> on a
  value that is no string, the \<^verbatim>\<open>string\<close> setter of \<^verbatim>\<open>bs4\<close> on a value that is no string,
  and \<^verbatim>\<open>citeproc\<close>. They are parameters of the model: every theorem below holds whatever
  they compute. The \<^verbatim>\<open>citeproc\<close> objects are states of types \<open>'s\<close> (source), \<open>'y\<close> (style)
  and \<open>'b\<close> (bibliography); \<^verbatim>\<open>register\<close> returns the bibliography it has updated,
  \<^verbatim>\<open>cite\<close> the text of a citation and the items its callback was called with, and
  \<^verbatim>\<open>bibliography\<close> the rendered entries as strings.
\<close>

datatype citeproc_item = CitationItem string
datatype citeproc_citation = Citation "citeproc_item list"

record ('s, 'y, 'b) libs =
  b64decode :: "string \<Rightarrow> lib_error + string"
  json_loads :: "string \<Rightarrow> lib_error + json"
  py_str :: "json \<Rightarrow> string"
  string_setter :: "json \<Rightarrow> lib_error + string"
  CiteProcJSON :: "json list \<Rightarrow> lib_error + 's"
  CitationStylesStyle :: "string \<Rightarrow> bool \<Rightarrow> lib_error + 'y"
  CitationStylesBibliography :: "'y \<Rightarrow> 's \<Rightarrow> lib_error + 'b"
  register :: "'b \<Rightarrow> citeproc_citation \<Rightarrow> lib_error + 'b"
  cite :: "'b \<Rightarrow> citeproc_citation \<Rightarrow> lib_error + string \<times> citeproc_item list"
  bibliography :: "'b \<Rightarrow> lib_error + string list"

section \<open>Extraction\<close>

definition find_all_citation_spans :: "soup \<Rightarrow> (path \<times> node) list" where
  "find_all_citation_spans html_soup = find_all html_soup ''span'' [(''class'', ''citation'')]"

definition json_prefix :: string where
  "json_prefix = ''data:application/json;base64,''"

text \<open>
  \<^verbatim>\<open>span.attrs["data-src"].startswith(...)\<close>: a span with no such attribute raises
  \<^verbatim>\<open>KeyError\<close>, and a list has no \<^verbatim>\<open>startswith\<close>.
\<close>

definition has_inner_json_data :: "node \<Rightarrow> error + bool" where
  "has_inner_json_data span =
     (case attrs_getitem span ''data-src'' of
        Inl e \<Rightarrow> Inl e
      | Inr (AttrStr s) \<Rightarrow> Inr (prefix json_prefix s)
      | Inr (AttrList vs) \<Rightarrow> Inl AttributeError)"

text \<open>
  The slice \<^verbatim>\<open>data_src[len(prefix):]\<close>, decoded by \<^verbatim>\<open>b64decode\<close> and parsed by
  \<^verbatim>\<open>json.loads\<close>; either may raise.
\<close>

definition decode_data_src :: "('s, 'y, 'b) libs \<Rightarrow> attr_value \<Rightarrow> error + json" where
  "decode_data_src L v =
     (case v of
        AttrList vs \<Rightarrow> Inl TypeError
      | AttrStr data_src \<Rightarrow>
          (case lib (b64decode L (drop (length json_prefix) data_src)) of
             Inl e \<Rightarrow> Inl e
           | Inr bytes \<Rightarrow> lib (json_loads L bytes)))"

text \<open>The loop of \<^verbatim>\<open>extract_citations\<close> over the spans, \<open>citations\<close> the list built so far.\<close>

fun extract_loop :: "('s, 'y, 'b) libs \<Rightarrow> (path \<times> node) list \<Rightarrow> json list \<Rightarrow> error + json list" where
  "extract_loop L [] citations = Inr citations"
| "extract_loop L ((p, span) # spans) citations =
     (case has_inner_json_data span of
        Inl e \<Rightarrow> Inl e
      | Inr False \<Rightarrow> extract_loop L spans citations
      | Inr True \<Rightarrow>
          (case attrs_getitem span ''data-src'' of
             Inl e \<Rightarrow> Inl e
           | Inr data_src \<Rightarrow>
               (case decode_data_src L data_src of
                  Inl e \<Rightarrow> Inl e
                | Inr c \<Rightarrow> extract_loop L spans (citations @ [c]))))"

definition extract_citations :: "('s, 'y, 'b) libs \<Rightarrow> soup \<Rightarrow> error + json list" where
  "extract_citations L html_soup = extract_loop L (find_all_citation_spans html_soup) []"

section \<open>Preparing the input of citeproc\<close>

fun prepare_items :: "json list \<Rightarrow> json list \<Rightarrow> error + json list" where
  "prepare_items [] citeproc_input = Inr citeproc_input"
| "prepare_items (citation_item # items) citeproc_input =
     (case getitem citation_item ''itemData'' of
        Inl e \<Rightarrow> Inl e
      | Inr d \<Rightarrow> prepare_items items (citeproc_input @ [d]))"

fun prepare_groups :: "json list \<Rightarrow> json list \<Rightarrow> error + json list" where
  "prepare_groups [] citeproc_input = Inr citeproc_input"
| "prepare_groups (citation_group # groups) citeproc_input =
     (case getitem citation_group ''citationItems'' of
        Inl e \<Rightarrow> Inl e
      | Inr v \<Rightarrow>
          (case py_iter v of
             Inl e \<Rightarrow> Inl e
           | Inr items \<Rightarrow>
               (case prepare_items items citeproc_input of
                  Inl e \<Rightarrow> Inl e
                | Inr citeproc_input' \<Rightarrow> prepare_groups groups citeproc_input')))"

definition prepare_citations_for_citeproc :: "json list \<Rightarrow> error + json list" where
  "prepare_citations_for_citeproc citations = prepare_groups citations []"

text \<open>\<^verbatim>\<open>str(value)\<close>: a string is itself, anything else is what Python prints for it.\<close>

definition str_of :: "('s, 'y, 'b) libs \<Rightarrow> json \<Rightarrow> string" where
  "str_of L v = (case v of JStr s \<Rightarrow> s | _ \<Rightarrow> py_str L v)"

fun create_items :: "('s, 'y, 'b) libs \<Rightarrow> json list \<Rightarrow> citeproc_item list \<Rightarrow> error + citeproc_item list" where
  "create_items L [] citation_items = Inr citation_items"
| "create_items L (citation_item # items) citation_items =
     (case getitem citation_item ''itemData'' of
        Inl e \<Rightarrow> Inl e
      | Inr d \<Rightarrow>
          (case getitem d ''id'' of
             Inl e \<Rightarrow> Inl e
           | Inr v \<Rightarrow> create_items L items (citation_items @ [CitationItem (str_of L v)])))"

fun create_groups :: "('s, 'y, 'b) libs \<Rightarrow> json list \<Rightarrow> citeproc_citation list \<Rightarrow> error + citeproc_citation list" where
  "create_groups L [] citation_objects = Inr citation_objects"
| "create_groups L (citation_group # groups) citation_objects =
     (case getitem citation_group ''citationItems'' of
        Inl e \<Rightarrow> Inl e
      | Inr v \<Rightarrow>
          (case py_iter v of
             Inl e \<Rightarrow> Inl e
           | Inr items \<Rightarrow>
               (case create_items L items [] of
                  Inl e \<Rightarrow> Inl e
                | Inr citation_items \<Rightarrow>
                    create_groups L groups (citation_objects @ [Citation citation_items]))))"

definition create_citations_to_register :: "('s, 'y, 'b) libs \<Rightarrow> json list \<Rightarrow> error + citeproc_citation list" where
  "create_citations_to_register L citations = create_groups L citations []"

section \<open>What a run does, in order\<close>

text \<open>
  A run is the list of what it did to the outside, in order, and what it returned or
  raised: each call of \<^verbatim>\<open>citeproc\<close> (logged when it is made, whether it returns or
  raises), each \<^verbatim>\<open>print\<close>, and each \<^verbatim>\<open>replace_with\<close> on the tree.
\<close>

datatype event =
    CallCiteProcJSON "json list"
  | CallCitationStylesStyle string
  | CallCitationStylesBibliography
  | CallRegister citeproc_citation
  | CallCite citeproc_citation
  | Print string
  | ReplaceWith path node
  | CallBibliography

type_synonym 'a run = "event list \<times> (error + 'a)"

definition silent :: "error + 'a \<Rightarrow> 'a run" where
  "silent r = ([], r)"

definition call :: "event \<Rightarrow> error + 'a \<Rightarrow> 'a run" where
  "call ev r = ([ev], r)"

definition and_then :: "'a run \<Rightarrow> ('a \<Rightarrow> 'c run) \<Rightarrow> 'c run" where
  "and_then m f =
     (case m of
        (tr, Inl e) \<Rightarrow> (tr, Inl e)
      | (tr, Inr x) \<Rightarrow> (case f x of (tr', r) \<Rightarrow> (tr @ tr', r)))"

section \<open>Rewriting the tree\<close>

text \<open>\<^verbatim>\<open>citations[i]\<close> for an index that is never negative.\<close>

definition list_getitem :: "'a list \<Rightarrow> nat \<Rightarrow> error + 'a" where
  "list_getitem xs i = (if i < length xs then Inr (xs ! i) else Inl IndexError)"

text \<open>
  The nested function \<^verbatim>\<open>_warn\<close> of \<^verbatim>\<open>add_citations\<close>. It is the callback of the call
  \<^verbatim>\<open>bib.cite(citation, _warn)\<close>, which the module keeps only as a string inside the
  tuple \<^verbatim>\<open>GENERATE_CITATION_USING_CITEPROC\<close>: nothing applies it.
\<close>

fun warn :: "citeproc_item \<Rightarrow> event" where
  "warn (CitationItem key) =
     Print (''WARNING: Reference with key '' @ [CHR 0x27] @ key @ [CHR 0x27]
            @ '' not found in the bibliography.'')"

text \<open>
  \<^verbatim>\<open>new_tag.string = citation_str\<close>. For a string the new tag holds it as its one text
  node; what \<^verbatim>\<open>bs4\<close> does with another value is the library's.
\<close>

definition assign_string :: "('s, 'y, 'b) libs \<Rightarrow> node \<Rightarrow> json \<Rightarrow> error + node" where
  "assign_string L tag v =
     (case v of
        JStr s \<Rightarrow> Inr (set_string tag s)
      | _ \<Rightarrow> (case lib (string_setter L v) of Inl e \<Rightarrow> Inl e | Inr s \<Rightarrow> Inr (set_string tag s)))"

text \<open>
  A span below a span that was replaced earlier has left the tree with it:
  \<^verbatim>\<open>replace_with\<close> then works on the detached subtree and the document does not change.
\<close>

definition detached :: "path list \<Rightarrow> path \<Rightarrow> bool" where
  "detached replaced p = list_ex (\<lambda>q. strict_prefix q p) replaced"

text \<open>
  The loop of \<^verbatim>\<open>add_citations\<close> over the spans found before the first replacement: \<open>i\<close>
  is the counter, \<open>replaced\<close> the places of the spans replaced so far, \<open>html_soup\<close> the
  document as it is now. The attributes of a span do not change when it is replaced, so
  the test \<^verbatim>\<open>_has_inner_json_data\<close> reads them from the span found.
\<close>

fun add_citations_loop ::
  "('s, 'y, 'b) libs \<Rightarrow> json list \<Rightarrow> (path \<times> node) list \<Rightarrow> nat \<Rightarrow> path list \<Rightarrow> soup \<Rightarrow> soup run" where
  "add_citations_loop L citations [] i replaced html_soup = ([], Inr html_soup)"
| "add_citations_loop L citations ((p, span) # spans) i replaced html_soup =
     (case has_inner_json_data span of
        Inl e \<Rightarrow> ([], Inl e)
      | Inr False \<Rightarrow> add_citations_loop L citations spans i replaced html_soup
      | Inr True \<Rightarrow>
          (case list_getitem citations i of
             Inl e \<Rightarrow> ([], Inl e)
           | Inr citation \<Rightarrow>
               (case getitem citation ''properties'' of
                  Inl e \<Rightarrow> ([], Inl e)
                | Inr properties \<Rightarrow>
                    (case getitem properties ''plainCitation'' of
                       Inl e \<Rightarrow> ([], Inl e)
                     | Inr citation_str \<Rightarrow>
                         (case assign_string L (new_tag ''cite'' None []) citation_str of
                            Inl e \<Rightarrow> ([], Inl e)
                          | Inr new \<Rightarrow>
                              (case add_citations_loop L citations spans (Suc i) (replaced @ [p])
                                      (if detached replaced p then html_soup
                                       else replace_at html_soup p new) of
                                 (tr, r) \<Rightarrow> (ReplaceWith p new # tr, r)))))))"

definition add_citations ::
  "('s, 'y, 'b) libs \<Rightarrow> soup \<Rightarrow> citeproc_citation list \<Rightarrow> json list \<Rightarrow> 'b \<Rightarrow> soup run" where
  "add_citations L html_soup citeproc_citations citations bib =
     add_citations_loop L citations (find_all_citation_spans html_soup) 0 [] html_soup"

section \<open>Appending the bibliography\<close>

definition bibliography_li :: "string \<Rightarrow> node" where
  "bibliography_li citation =
     set_string (new_tag ''li'' None []) (''<small>'' @ citation @ ''</small>'')"

text \<open>
  \<^verbatim>\<open>bib.bibliography()\<close> is called twice, for the test and for the loop. The dictionary
  with the class is the second positional argument of \<^verbatim>\<open>new_tag\<close>.
\<close>

definition add_bibliography :: "('s, 'y, 'b) libs \<Rightarrow> soup \<Rightarrow> 'b \<Rightarrow> soup run" where
  "add_bibliography L html_soup bib =
     and_then (call CallBibliography (lib (bibliography L bib))) (\<lambda>entries.
       if entries = [] then silent (Inr html_soup)
       else
         and_then (call CallBibliography (lib (bibliography L bib))) (\<lambda>entries'.
           let div_tag = new_tag ''div'' (Some [(''class'', AttrStr ''dgtmon-bibliography'')]) [];
               h1 = set_string (new_tag ''h1'' None []) ''Bibliography'';
               ol = fold (\<lambda>citation ol. append_child ol (bibliography_li citation))
                      entries' (new_tag ''ol'' None [])
           in silent (Inr (html_soup @ [append_child (append_child div_tag h1) ol]))))"

section \<open>The pipeline\<close>

fun register_all :: "('s, 'y, 'b) libs \<Rightarrow> citeproc_citation list \<Rightarrow> 'b \<Rightarrow> 'b run" where
  "register_all L [] bib = ([], Inr bib)"
| "register_all L (citation # rest) bib =
     (case lib (register L bib citation) of
        Inl e \<Rightarrow> ([CallRegister citation], Inl e)
      | Inr bib' \<Rightarrow>
          (case register_all L rest bib' of (tr, r) \<Rightarrow> (CallRegister citation # tr, r)))"

definition add_citations_and_bibliography :: "('s, 'y, 'b) libs \<Rightarrow> soup \<Rightarrow> string \<Rightarrow> soup run" where
  "add_citations_and_bibliography L html_soup citation_style =
     and_then (silent (extract_citations L html_soup)) (\<lambda>citations.
     and_then (silent (prepare_citations_for_citeproc citations)) (\<lambda>json_data.
     and_then (call (CallCiteProcJSON json_data) (lib (CiteProcJSON L json_data))) (\<lambda>bib_source.
     and_then (call (CallCitationStylesStyle citation_style)
                 (lib (CitationStylesStyle L citation_style False))) (\<lambda>bib_style.
     and_then (call CallCitationStylesBibliography
                 (lib (CitationStylesBibliography L bib_style bib_source))) (\<lambda>bib0.
     and_then (silent (create_citations_to_register L citations)) (\<lambda>citeproc_citations.
     and_then (register_all L citeproc_citations bib0) (\<lambda>bib.
     and_then (add_citations L html_soup citeproc_citations citations bib) (\<lambda>html_soup'.
     add_bibliography L html_soup' bib))))))))"

section \<open>A sample of the libraries and sample documents\<close>

text \<open>
  For running the model on concrete documents: the two decoders on the payloads used
  below (each line is what \<^verbatim>\<open>base64.b64decode\<close> and \<^verbatim>\<open>json.loads\<close> return on that input),
  and a small stand-in for \<^verbatim>\<open>citeproc\<close> whose source is the list of the keys of the records
  that have a string \<^verbatim>\<open>id\<close> and a \<^verbatim>\<open>title\<close>, whose bibliography is that list with the
  keys registered so far, and which knows two styles.
\<close>

definition payload_smith :: string where
  "payload_smith = ''eyJjaXRhdGlvbkl0ZW1zIjpbeyJpdGVtRGF0YSI6eyJpZCI6IkEiLCJ0aXRsZSI6IlQifX1dLCJwcm9wZXJ0aWVzIjp7InBsYWluQ2l0YXRpb24iOiJTbWl0aCAyMDIwIn19''"

definition payload_no_id :: string where
  "payload_no_id = ''eyJjaXRhdGlvbkl0ZW1zIjpbeyJpdGVtRGF0YSI6eyJ0aXRsZSI6IlQifX1dLCJwcm9wZXJ0aWVzIjp7InBsYWluQ2l0YXRpb24iOiJEb2UgMjAyMSJ9fQ==''"

definition payload_untitled :: string where
  "payload_untitled = ''eyJjaXRhdGlvbkl0ZW1zIjpbeyJpdGVtRGF0YSI6eyJpZCI6IkIifX1dLCJwcm9wZXJ0aWVzIjp7InBsYWluQ2l0YXRpb24iOiJTbWl0aCAyMDIwIn19''"

definition payload_not_json :: string where
  "payload_not_json = ''bm90IGpzb24=''"

definition text_smith :: string where
  "text_smith = ''{\"citationItems\":[{\"itemData\":{\"id\":\"A\",\"title\":\"T\"}}],\"properties\":{\"plainCitation\":\"Smith 2020\"}}''"

definition text_no_id :: string where
  "text_no_id = ''{\"citationItems\":[{\"itemData\":{\"title\":\"T\"}}],\"properties\":{\"plainCitation\":\"Doe 2021\"}}''"

definition text_untitled :: string where
  "text_untitled = ''{\"citationItems\":[{\"itemData\":{\"id\":\"B\"}}],\"properties\":{\"plainCitation\":\"Smith 2020\"}}''"

definition group_smith :: json where
  "group_smith =
     JObj [(''citationItems'', JArr [JObj [(''itemData'', JObj [(''id'', JStr ''A''), (''title'', JStr ''T'')])]]),
           (''properties'', JObj [(''plainCitation'', JStr ''Smith 2020'')])]"

definition group_no_id :: json where
  "group_no_id =
     JObj [(''citationItems'', JArr [JObj [(''itemData'', JObj [(''title'', JStr ''T'')])]]),
           (''properties'', JObj [(''plainCitation'', JStr ''Doe 2021'')])]"

definition group_untitled :: json where
  "group_untitled =
     JObj [(''citationItems'', JArr [JObj [(''itemData'', JObj [(''id'', JStr ''B'')])]]),
           (''properties'', JObj [(''plainCitation'', JStr ''Smith 2020'')])]"

definition payload_no_properties :: string where
  "payload_no_properties = ''eyJjaXRhdGlvbkl0ZW1zIjpbeyJpdGVtRGF0YSI6eyJpZCI6IkEiLCJ0aXRsZSI6IlQifX1dfQ==''"

definition text_no_properties :: string where
  "text_no_properties = ''{\"citationItems\":[{\"itemData\":{\"id\":\"A\",\"title\":\"T\"}}]}''"

definition group_no_properties :: json where
  "group_no_properties =
     JObj [(''citationItems'', JArr [JObj [(''itemData'', JObj [(''id'', JStr ''A''), (''title'', JStr ''T'')])]])]"

definition sample_b64decode :: "string \<Rightarrow> lib_error + string" where
  "sample_b64decode s =
     (if s = payload_smith then Inr text_smith
      else if s = payload_no_id then Inr text_no_id
      else if s = payload_untitled then Inr text_untitled
      else if s = payload_not_json then Inr ''not json''
      else if s = payload_no_properties then Inr text_no_properties
      else Inl BinasciiError)"

definition sample_json_loads :: "string \<Rightarrow> lib_error + json" where
  "sample_json_loads s =
     (if s = text_smith then Inr group_smith
      else if s = text_no_id then Inr group_no_id
      else if s = text_untitled then Inr group_untitled
      else if s = text_no_properties then Inr group_no_properties
      else Inl JSONDecodeError)"

fun sample_key :: "json \<Rightarrow> string list" where
  "sample_key (JObj kvs) =
     (case (map_of kvs ''id'', map_of kvs ''title'') of
        (Some (JStr k), Some t) \<Rightarrow> [k]
      | _ \<Rightarrow> [])"
| "sample_key v = []"

fun sample_register :: "string list \<times> string list \<Rightarrow> citeproc_citation \<Rightarrow> lib_error + string list \<times> string list" where
  "sample_register (keys, cited) (Citation items) =
     Inr (keys, cited @ filter (\<lambda>k. k \<in> set keys) (map (\<lambda>it. case it of CitationItem k \<Rightarrow> k) items))"

fun sample_cite :: "string list \<times> string list \<Rightarrow> citeproc_citation \<Rightarrow> lib_error + string \<times> citeproc_item list" where
  "sample_cite (keys, cited) (Citation items) =
     Inr (''('' @ concat (map (\<lambda>it. case it of CitationItem k \<Rightarrow> k) items) @ '')'',
          filter (\<lambda>it. case it of CitationItem k \<Rightarrow> k \<notin> set keys) items)"

definition sample_libs :: "(string list, string, string list \<times> string list) libs" where
  "sample_libs =
     \<lparr> b64decode = sample_b64decode,
       json_loads = sample_json_loads,
       py_str = (\<lambda>v. ''None''),
       string_setter = (\<lambda>v. Inl (OtherError ''AttributeError'')),
       CiteProcJSON = (\<lambda>json_data. Inr (concat (map sample_key json_data))),
       CitationStylesStyle = (\<lambda>style validate.
         if style = ''harvard1'' \<or> style = ''apa'' then Inr style
         else Inl (ValueError style)),
       CitationStylesBibliography = (\<lambda>style source. Inr (source, [])),
       register = sample_register,
       cite = sample_cite,
       bibliography = (\<lambda>(keys, cited). Inr (remdups cited)) \<rparr>"

definition marker :: "string \<Rightarrow> node" where
  "marker payload =
     Tag ''span'' [(''class'', AttrList [''citation'']), (''data-src'', AttrStr (json_prefix @ payload))]
       [NavigableString ''[1]'']"

definition doc_smith :: soup where
  "doc_smith = [Tag ''p'' [] [NavigableString ''See '', marker payload_smith, NavigableString ''.'']]"

definition doc_untitled :: soup where
  "doc_untitled = [Tag ''p'' [] [NavigableString ''See '', marker payload_untitled]]"

definition doc_no_id :: soup where
  "doc_no_id = [Tag ''p'' [] [marker payload_smith, marker payload_no_id]]"

definition doc_not_json :: soup where
  "doc_not_json = [Tag ''p'' [] [marker payload_not_json, marker payload_smith]]"

definition doc_no_payload :: soup where
  "doc_no_payload =
     [Tag ''p'' [] [Tag ''span'' [(''class'', AttrList [''citation''])] [NavigableString ''[1]''],
                     marker payload_smith]]"

definition doc_no_properties :: soup where
  "doc_no_properties = [Tag ''p'' [] [marker payload_smith, marker payload_no_properties]]"

definition doc_nested :: soup where
  "doc_nested =
     [Tag ''p'' []
        [Tag ''span'' [(''class'', AttrList [''citation'']),
                       (''data-src'', AttrStr (json_prefix @ payload_smith))]
           [NavigableString ''see also '', marker payload_untitled]]]"

definition doc_plain :: soup where
  "doc_plain =
     [Tag ''p'' [] [NavigableString ''No markers here, only '',
                     Tag ''span'' [(''class'', AttrList [''citation'']), (''data-src'', AttrStr ''refs.json'')]
                       [NavigableString ''a link'']]]"

section \<open>Observations on a run\<close>

fun is_register :: "event \<Rightarrow> bool" where
  "is_register (CallRegister c) = True"
| "is_register ev = False"

fun is_replace :: "event \<Rightarrow> bool" where
  "is_replace (ReplaceWith p n) = True"
| "is_replace ev = False"

fun is_print :: "event \<Rightarrow> bool" where
  "is_print (Print s) = True"
| "is_print ev = False"

fun is_cite :: "event \<Rightarrow> bool" where
  "is_cite (CallCite c) = True"
| "is_cite ev = False"

text \<open>
  The markers both loops act on: the citation spans whose \<^verbatim>\<open>data-src\<close> starts with the
  prefix, in document order.
\<close>

definition qualifies :: "node \<Rightarrow> bool" where
  "qualifies span = (has_inner_json_data span = Inr True)"

definition qualifying_spans :: "soup \<Rightarrow> (path \<times> node) list" where
  "qualifying_spans html_soup =
     filter (\<lambda>(p, span). qualifies span) (find_all_citation_spans html_soup)"

text \<open>The \<^verbatim>\<open>plainCitation\<close> of a group, when the group has one and it is a string.\<close>

definition plain_citation :: "json \<Rightarrow> string option" where
  "plain_citation citation =
     (case getitem citation ''properties'' of
        Inl e \<Rightarrow> None
      | Inr properties \<Rightarrow>
          (case getitem properties ''plainCitation'' of
             Inr (JStr s) \<Rightarrow> Some s
           | _ \<Rightarrow> None))"

text \<open>
  Document order on places: no place is at or above a place that comes before it.
\<close>

fun doc_order :: "path list \<Rightarrow> bool" where
  "doc_order [] = True"
| "doc_order (p # ps) = ((\<forall>q\<in>set ps. \<not> prefix q p) \<and> doc_order ps)"

section \<open>Sequencing\<close>

lemma and_then_silent_Inl [simp]: "and_then (silent (Inl e)) f = ([], Inl e)"
  by (simp add: and_then_def silent_def)

lemma and_then_silent_Inr [simp]: "and_then (silent (Inr x)) f = f x"
  by (simp add: and_then_def silent_def split: prod.splits)

lemma and_then_call_Inl [simp]: "and_then (call ev (Inl e)) f = ([ev], Inl e)"
  by (simp add: and_then_def call_def)

lemma and_then_call_Inr [simp]: "and_then (call ev (Inr x)) f = (ev # fst (f x), snd (f x))"
  by (simp add: and_then_def call_def split: prod.splits)

lemma lib_simps [simp]: "lib (Inl e) = Inl (Raised e)" "lib (Inr x) = Inr x"
  by (simp_all add: lib_def)

lemma and_then_Inl: "snd m = Inl e \<Longrightarrow> and_then m f = (fst m, Inl e)"
  by (cases m) (simp add: and_then_def)

lemma and_then_Inr: "snd m = Inr x \<Longrightarrow> and_then m f = (fst m @ fst (f x), snd (f x))"
  by (cases m) (simp add: and_then_def split: prod.splits)

section \<open>The style is looked up before anything is registered\<close>

text \<open>
  C7. When the style identifier is one that \<^verbatim>\<open>CitationStylesStyle\<close> does not resolve, the
  run ends in an exception, no citation has been registered (and nothing replaced) by
  then, and whenever the run gets as far as the style lookup (extraction, collection and
  the source succeeded) the exception is the one the lookup raised, right after the call.
\<close>

theorem unknown_style_fails_before_registration:
  assumes "CitationStylesStyle L citation_style False = Inl e"
  shows "(\<exists>e'. snd (add_citations_and_bibliography L html_soup citation_style) = Inl e')
       \<and> (\<forall>ev \<in> set (fst (add_citations_and_bibliography L html_soup citation_style)).
             \<not> is_register ev \<and> \<not> is_replace ev)
       \<and> (\<forall>citations json_data src.
             extract_citations L html_soup = Inr citations
             \<and> prepare_citations_for_citeproc citations = Inr json_data
             \<and> CiteProcJSON L json_data = Inr src
             \<longrightarrow> add_citations_and_bibliography L html_soup citation_style
                  = ([CallCiteProcJSON json_data, CallCitationStylesStyle citation_style],
                     Inl (Raised e)))"
proof (cases "extract_citations L html_soup")
  case (Inl e1)
  then show ?thesis by (simp add: add_citations_and_bibliography_def)
next
  case (Inr citations)
  note ex = this
  show ?thesis
  proof (cases "prepare_citations_for_citeproc citations")
    case (Inl e2)
    with ex show ?thesis by (simp add: add_citations_and_bibliography_def)
  next
    case (Inr json_data)
    note pr = this
    show ?thesis
    proof (cases "CiteProcJSON L json_data")
      case (Inl e3)
      with ex pr show ?thesis by (simp add: add_citations_and_bibliography_def)
    next
      case (Inr src)
      with ex pr assms show ?thesis by (simp add: add_citations_and_bibliography_def)
    qed
  qed
qed

theorem unknown_style_fails_before_registration_witness:
  "CitationStylesStyle sample_libs ''nostyle'' False = Inl (ValueError ''nostyle'')
   \<and> add_citations_and_bibliography sample_libs doc_smith ''nostyle''
     = ([CallCiteProcJSON [JObj [(''id'', JStr ''A''), (''title'', JStr ''T'')]],
         CallCitationStylesStyle ''nostyle''],
        Inl (Raised (ValueError ''nostyle'')))"
proof -
  have h: "CitationStylesStyle sample_libs ''nostyle'' False = Inl (ValueError ''nostyle'')"
    by (simp add: sample_libs_def)
  have ex: "extract_citations sample_libs doc_smith = Inr [group_smith]"
    by code_simp
  have pr: "prepare_citations_for_citeproc [group_smith]
            = Inr [JObj [(''id'', JStr ''A''), (''title'', JStr ''T'')]]"
    by code_simp
  have src: "CiteProcJSON sample_libs [JObj [(''id'', JStr ''A''), (''title'', JStr ''T'')]] = Inr [''A'']"
    by (simp add: sample_libs_def)
  from unknown_style_fails_before_registration [OF h, of doc_smith] ex pr src
  have "add_citations_and_bibliography sample_libs doc_smith ''nostyle''
     = ([CallCiteProcJSON [JObj [(''id'', JStr ''A''), (''title'', JStr ''T'')]],
         CallCitationStylesStyle ''nostyle''],
        Inl (Raised (ValueError ''nostyle'')))"
    by blast
  with h show ?thesis by (rule conjI)
qed

section \<open>What each loop logs\<close>

lemma register_all_trace:
  "\<exists>k\<le>length cc. fst (register_all L cc bib) = map CallRegister (take k cc)
      \<and> (\<forall>b. snd (register_all L cc bib) = Inr b \<longrightarrow> k = length cc)"
proof (induction cc arbitrary: bib)
  case Nil
  then show ?case by simp
next
  case (Cons c cc)
  show ?case
  proof (cases "register L bib c")
    case (Inl e)
    then have "fst (register_all L (c # cc) bib) = map CallRegister (take 1 (c # cc))"
      and "\<forall>b. snd (register_all L (c # cc) bib) \<noteq> Inr b"
      by simp_all
    then show ?thesis by (intro exI[of _ 1]) simp
  next
    case (Inr bib')
    from Cons.IH[of bib'] obtain k where k: "k \<le> length cc"
      "fst (register_all L cc bib') = map CallRegister (take k cc)"
      "\<forall>b. snd (register_all L cc bib') = Inr b \<longrightarrow> k = length cc"
      by blast
    with Inr show ?thesis
      by (intro exI[of _ "Suc k"]) (simp add: split_beta)
  qed
qed

lemma has_inner_json_data_errors:
  "has_inner_json_data span = Inl e \<Longrightarrow> e = AttributeError \<or> e = KeyError ''data-src''"
  by (cases span) (auto simp: has_inner_json_data_def split: option.splits attr_value.splits)

lemma getitem_errors: "getitem v k = Inl e \<Longrightarrow> e = TypeError \<or> e = KeyError k"
  by (cases v) (auto split: option.splits)

lemma assign_string_errors: "assign_string L tag v = Inl e \<Longrightarrow> \<exists>le. e = Raised le"
  by (cases v) (auto simp: assign_string_def lib_def split: sum.splits)

lemma add_citations_loop_trace:
  "\<forall>ev\<in>set (fst (add_citations_loop L citations spans i replaced t)). is_replace ev"
proof (induction spans arbitrary: i replaced t)
  case Nil
  then show ?case by simp
next
  case (Cons a spans)
  obtain p span where a: "a = (p, span)" by (cases a)
  show ?case unfolding a
    using Cons.IH
    by (auto split: sum.splits bool.splits simp: split_beta)
qed

lemma add_citations_loop_replaced:
  "snd (add_citations_loop L citations spans i replaced t) = Inr t'
   \<Longrightarrow> length (fst (add_citations_loop L citations spans i replaced t))
       = length (filter (\<lambda>(p, span). qualifies span) spans)"
proof (induction spans arbitrary: i replaced t)
  case Nil
  then show ?case by simp
next
  case (Cons a spans)
  obtain p span where a: "a = (p, span)" by (cases a)
  from Cons.prems show ?case unfolding a
    using Cons.IH
    by (auto split: sum.splits bool.splits if_splits simp: split_beta qualifies_def)
qed

lemma extract_loop_length:
  "extract_loop L spans acc = Inr cs
   \<Longrightarrow> length cs = length acc + length (filter (\<lambda>(p, span). qualifies span) spans)"
proof (induction spans arbitrary: acc)
  case Nil
  then show ?case by simp
next
  case (Cons a spans)
  obtain p span where a: "a = (p, span)" by (cases a)
  from Cons.prems show ?case unfolding a
    by (auto split: sum.splits bool.splits simp: qualifies_def dest!: Cons.IH)
qed

lemma add_citations_loop_no_IndexError:
  "i + length (filter (\<lambda>(p, span). qualifies span) spans) \<le> length citations
   \<Longrightarrow> snd (add_citations_loop L citations spans i replaced t) \<noteq> Inl IndexError"
proof (induction spans arbitrary: i replaced t)
  case Nil
  then show ?case by simp
next
  case (Cons a spans)
  obtain p span where a: "a = (p, span)" by (cases a)
  from Cons.prems show ?case unfolding a
    using Cons.IH
    by (auto split: sum.splits bool.splits if_splits
          simp: split_beta qualifies_def list_getitem_def
          dest: has_inner_json_data_errors getitem_errors assign_string_errors)
qed

section \<open>The stages of the pipeline\<close>

lemma pipeline_from_registration:
  assumes "extract_citations L html_soup = Inr citations"
    and "prepare_citations_for_citeproc citations = Inr json_data"
    and "CiteProcJSON L json_data = Inr src"
    and "CitationStylesStyle L citation_style False = Inr sty"
    and "CitationStylesBibliography L sty src = Inr bib0"
    and "create_citations_to_register L citations = Inr cc"
  shows "add_citations_and_bibliography L html_soup citation_style =
           (CallCiteProcJSON json_data # CallCitationStylesStyle citation_style
              # CallCitationStylesBibliography
              # fst (and_then (register_all L cc bib0) (\<lambda>bib.
                       and_then (add_citations L html_soup cc citations bib) (\<lambda>html_soup'.
                       add_bibliography L html_soup' bib))),
            snd (and_then (register_all L cc bib0) (\<lambda>bib.
                       and_then (add_citations L html_soup cc citations bib) (\<lambda>html_soup'.
                       add_bibliography L html_soup' bib))))"
  using assms by (simp add: add_citations_and_bibliography_def)

lemma pipeline_stages:
  "(\<exists>e pre. add_citations_and_bibliography L html_soup citation_style = (pre, Inl e)
       \<and> (\<forall>ev\<in>set pre. \<not> is_register ev \<and> \<not> is_replace ev \<and> \<not> is_print ev \<and> \<not> is_cite ev))
   \<or> (\<exists>citations json_data src sty bib0 cc.
         extract_citations L html_soup = Inr citations
       \<and> prepare_citations_for_citeproc citations = Inr json_data
       \<and> CiteProcJSON L json_data = Inr src
       \<and> CitationStylesStyle L citation_style False = Inr sty
       \<and> CitationStylesBibliography L sty src = Inr bib0
       \<and> create_citations_to_register L citations = Inr cc)"
proof (cases "extract_citations L html_soup")
  case (Inl e1)
  then show ?thesis by (simp add: add_citations_and_bibliography_def)
next
  case ex: (Inr citations)
  show ?thesis
  proof (cases "prepare_citations_for_citeproc citations")
    case (Inl e2)
    with ex show ?thesis by (simp add: add_citations_and_bibliography_def)
  next
    case pr: (Inr json_data)
    show ?thesis
    proof (cases "CiteProcJSON L json_data")
      case (Inl e3)
      with ex pr show ?thesis by (simp add: add_citations_and_bibliography_def)
    next
      case src: (Inr src)
      show ?thesis
      proof (cases "CitationStylesStyle L citation_style False")
        case (Inl e4)
        with ex pr src show ?thesis by (simp add: add_citations_and_bibliography_def)
      next
        case sty: (Inr sty)
        show ?thesis
        proof (cases "CitationStylesBibliography L sty src")
          case (Inl e5)
          with ex pr src sty show ?thesis by (simp add: add_citations_and_bibliography_def)
        next
          case bib: (Inr bib0)
          show ?thesis
          proof (cases "create_citations_to_register L citations")
            case (Inl e6)
            with ex pr src sty bib show ?thesis by (simp add: add_citations_and_bibliography_def)
          next
            case (Inr cc)
            with ex pr src sty bib show ?thesis by simp
          qed
        qed
      qed
    qed
  qed
qed

lemma add_bibliography_trace:
  "\<forall>ev\<in>set (fst (add_bibliography L html_soup bib)). ev = CallBibliography"
  by (cases "bibliography L bib"; cases "bibliography L bib")
     (simp_all add: add_bibliography_def silent_def Let_def)

lemma rewriting_trace:
  "\<exists>k reps post.
     fst (and_then (register_all L cc bib0) (\<lambda>bib.
            and_then (add_citations L html_soup cc citations bib) (\<lambda>html_soup'.
            add_bibliography L html_soup' bib)))
       = map CallRegister (take k cc) @ reps @ post
     \<and> (\<forall>ev\<in>set reps. is_replace ev)
     \<and> (\<forall>ev\<in>set post. ev = CallBibliography)
     \<and> (reps @ post \<noteq> [] \<longrightarrow> k = length cc)"
proof -
  from register_all_trace[of cc L bib0] obtain k where k:
    "fst (register_all L cc bib0) = map CallRegister (take k cc)"
    "\<forall>b. snd (register_all L cc bib0) = Inr b \<longrightarrow> k = length cc"
    by blast
  show ?thesis
  proof (cases "snd (register_all L cc bib0)")
    case (Inl e)
    with k show ?thesis
      by (intro exI[of _ k] exI[of _ "[]"]) (simp add: and_then_Inl)
  next
    case (Inr bib)
    with k have kk: "k = length cc" by simp
    let ?A = "add_citations L html_soup cc citations bib"
    have reps: "\<forall>ev\<in>set (fst ?A). is_replace ev"
      unfolding add_citations_def by (rule add_citations_loop_trace)
    show ?thesis
    proof (cases "snd ?A")
      case (Inl e)
      with Inr k kk reps show ?thesis
        by (intro exI[of _ k] exI[of _ "fst ?A"] exI[of _ "[]"])
           (simp add: and_then_Inr and_then_Inl)
    next
      case (Inr html_soup')
      with \<open>snd (register_all L cc bib0) = Inr bib\<close> k kk reps
        add_bibliography_trace[of L html_soup' bib]
      show ?thesis
        by (intro exI[of _ k] exI[of _ "fst ?A"]
              exI[of _ "fst (add_bibliography L html_soup' bib)"])
           (simp add: and_then_Inr)
    qed
  qed
qed

lemma create_groups_length:
  "create_groups L groups acc = Inr cc \<Longrightarrow> length cc = length acc + length groups"
  by (induction groups arbitrary: acc) (auto split: sum.splits dest!: meta_spec)

section \<open>Registration comes before any replacement\<close>

text \<open>
  C2. What a run does splits into a first part with no replacement and a second part
  with no registration, and \<^verbatim>\<open>cite\<close> is never called. When the second part is not empty
  (a marker was replaced or the bibliography was rendered), the first part has registered
  one citation for every extracted group, in document order.
\<close>

theorem registration_completes_before_replacement:
  "\<exists>before after.
     fst (add_citations_and_bibliography L html_soup citation_style) = before @ after
   \<and> (\<forall>ev\<in>set before. \<not> is_replace ev \<and> \<not> is_cite ev)
   \<and> (\<forall>ev\<in>set after. \<not> is_register ev \<and> \<not> is_cite ev)
   \<and> (after \<noteq> [] \<longrightarrow>
        (\<exists>citations cc.
           extract_citations L html_soup = Inr citations
         \<and> create_citations_to_register L citations = Inr cc
         \<and> length cc = length citations
         \<and> filter is_register before = map CallRegister cc))"
proof -
  from pipeline_stages[of L html_soup citation_style]
  consider (early) e pre where
      "add_citations_and_bibliography L html_soup citation_style = (pre, Inl e)"
      "\<forall>ev\<in>set pre. \<not> is_register ev \<and> \<not> is_replace ev \<and> \<not> is_print ev \<and> \<not> is_cite ev"
    | (late) citations json_data src sty bib0 cc where
      "extract_citations L html_soup = Inr citations"
      "prepare_citations_for_citeproc citations = Inr json_data"
      "CiteProcJSON L json_data = Inr src"
      "CitationStylesStyle L citation_style False = Inr sty"
      "CitationStylesBibliography L sty src = Inr bib0"
      "create_citations_to_register L citations = Inr cc"
    by blast
  then show ?thesis
  proof cases
    case early
    then show ?thesis
      by (intro exI[of _ pre] exI[of _ "[]"]) simp
  next
    case late
    from rewriting_trace[of L cc bib0 html_soup citations]
    obtain k reps post where tr:
      "fst (and_then (register_all L cc bib0) (\<lambda>bib.
            and_then (add_citations L html_soup cc citations bib) (\<lambda>html_soup'.
            add_bibliography L html_soup' bib)))
         = map CallRegister (take k cc) @ reps @ post"
      "\<forall>ev\<in>set reps. is_replace ev"
      "\<forall>ev\<in>set post. ev = CallBibliography"
      "reps @ post \<noteq> [] \<longrightarrow> k = length cc"
      by blast
    let ?pre = "[CallCiteProcJSON json_data, CallCitationStylesStyle citation_style,
                 CallCitationStylesBibliography] @ map CallRegister (take k cc)"
    have whole: "fst (add_citations_and_bibliography L html_soup citation_style)
                 = ?pre @ (reps @ post)"
      using pipeline_from_registration[OF late] tr(1) by simp
    have before: "\<forall>ev\<in>set ?pre. \<not> is_replace ev \<and> \<not> is_cite ev"
      by auto
    have after: "\<forall>ev\<in>set (reps @ post). \<not> is_register ev \<and> \<not> is_cite ev"
    proof
      fix ev assume "ev \<in> set (reps @ post)"
      then consider "ev \<in> set reps" | "ev \<in> set post" by auto
      then show "\<not> is_register ev \<and> \<not> is_cite ev"
      proof cases
        case 1
        with tr(2) have "is_replace ev" by simp
        then show ?thesis by (cases ev) simp_all
      next
        case 2
        with tr(3) have "ev = CallBibliography" by blast
        then show ?thesis by simp
      qed
    qed
    have len: "length cc = length citations"
      using late(6) create_groups_length[of L citations "[]" cc]
      by (simp add: create_citations_to_register_def)
    have regs: "filter is_register ?pre = map CallRegister cc" if "reps @ post \<noteq> []"
    proof -
      from that tr(4) have "k = length cc" by simp
      then show ?thesis by (simp add: filter_map comp_def)
    qed
    show ?thesis
      apply (rule exI[of _ ?pre], rule exI[of _ "reps @ post"])
      using whole before after late(1) late(6) len regs by blast
  qed
qed

theorem registration_completes_before_replacement_witness:
  "\<exists>before after.
     fst (add_citations_and_bibliography sample_libs doc_smith ''harvard1'') = before @ after
   \<and> after \<noteq> []
   \<and> filter is_register before = [CallRegister (Citation [CitationItem ''A''])]"
proof -
  from registration_completes_before_replacement[of sample_libs doc_smith "''harvard1''"]
  obtain before after where ba:
    "fst (add_citations_and_bibliography sample_libs doc_smith ''harvard1'') = before @ after"
    "\<forall>ev\<in>set before. \<not> is_replace ev \<and> \<not> is_cite ev"
    "after \<noteq> [] \<longrightarrow>
        (\<exists>citations cc.
           extract_citations sample_libs doc_smith = Inr citations
         \<and> create_citations_to_register sample_libs citations = Inr cc
         \<and> length cc = length citations
         \<and> filter is_register before = map CallRegister cc)"
    by blast
  have tr: "fst (add_citations_and_bibliography sample_libs doc_smith ''harvard1'')
            = [CallCiteProcJSON [JObj [(''id'', JStr ''A''), (''title'', JStr ''T'')]],
               CallCitationStylesStyle ''harvard1'', CallCitationStylesBibliography,
               CallRegister (Citation [CitationItem ''A'']),
               ReplaceWith [0, 1] (Tag ''cite'' [] [NavigableString ''Smith 2020'']),
               CallBibliography, CallBibliography]"
    by code_simp
  have "ReplaceWith [0, 1] (Tag ''cite'' [] [NavigableString ''Smith 2020'']) \<in> set (before @ after)"
    unfolding ba(1)[symmetric] tr by simp
  with ba(2) have ne: "after \<noteq> []" by fastforce
  have ex: "extract_citations sample_libs doc_smith = Inr [group_smith]"
    by code_simp
  have cr: "create_citations_to_register sample_libs [group_smith] = Inr [Citation [CitationItem ''A'']]"
    by code_simp
  from ba(3) ne ex cr have "filter is_register before = [CallRegister (Citation [CitationItem ''A''])]"
    by auto
  with ba(1) ne show ?thesis by blast
qed

section \<open>A document without qualifying markers\<close>

lemma add_citations_loop_no_marker:
  "extract_loop L spans acc = Inr cs \<Longrightarrow> length cs = length acc
   \<Longrightarrow> add_citations_loop L citations spans i replaced t = ([], Inr t)"
proof (induction spans arbitrary: acc)
  case Nil
  then show ?case by simp
next
  case (Cons a spans)
  obtain p span where a: "a = (p, span)" by (cases a)
  show ?case
  proof (cases "has_inner_json_data span")
    case (Inl e)
    with Cons.prems show ?thesis by (simp add: a)
  next
    case (Inr b)
    show ?thesis
    proof (cases b)
      case False
      with Inr Cons.prems Cons.IH[of acc] show ?thesis by (simp add: a)
    next
      case True
      with Inr Cons.prems obtain c where "extract_loop L spans (acc @ [c]) = Inr cs"
        by (auto simp: a split: sum.splits)
      from extract_loop_length[OF this] Cons.prems(2) show ?thesis by simp
    qed
  qed
qed

text \<open>
  C8. When the bibliography of the style engine has no entries, \<^verbatim>\<open>add_bibliography\<close>
  returns the tree it was given, after one call of \<^verbatim>\<open>bib.bibliography()\<close>. In particular
  a document from which no group is extracted comes out of the whole pipeline unchanged
  when the engine builds its objects and renders no entry for it.
\<close>

theorem empty_bibliography_leaves_tree_unchanged:
  "(bibliography L bib = Inr []
      \<longrightarrow> add_bibliography L html_soup bib = ([CallBibliography], Inr html_soup))
   \<and> (extract_citations L html_soup = Inr []
      \<and> CiteProcJSON L [] = Inr src
      \<and> CitationStylesStyle L citation_style False = Inr sty
      \<and> CitationStylesBibliography L sty src = Inr bib
      \<and> bibliography L bib = Inr []
      \<longrightarrow> snd (add_citations_and_bibliography L html_soup citation_style) = Inr html_soup)"
proof (intro conjI impI)
  assume "bibliography L bib = Inr []"
  then show "add_bibliography L html_soup bib = ([CallBibliography], Inr html_soup)"
    by (simp add: add_bibliography_def silent_def)
next
  assume a: "extract_citations L html_soup = Inr []
      \<and> CiteProcJSON L [] = Inr src
      \<and> CitationStylesStyle L citation_style False = Inr sty
      \<and> CitationStylesBibliography L sty src = Inr bib
      \<and> bibliography L bib = Inr []"
  then have "add_citations L html_soup [] [] bib = ([], Inr html_soup)"
    unfolding add_citations_def extract_citations_def
    by (intro add_citations_loop_no_marker[where acc = "[]" and cs = "[]"]) simp_all
  moreover have "prepare_citations_for_citeproc [] = Inr []"
    and "create_citations_to_register L [] = Inr []"
    by (simp_all add: prepare_citations_for_citeproc_def create_citations_to_register_def)
  ultimately show "snd (add_citations_and_bibliography L html_soup citation_style) = Inr html_soup"
    using a
    by (simp add: pipeline_from_registration[where citations = "[]" and json_data = "[]" and cc = "[]"]
          and_then_def add_bibliography_def silent_def call_def)
qed

theorem empty_bibliography_leaves_tree_unchanged_witness:
  "bibliography sample_libs ([], []) = Inr []
   \<and> extract_citations sample_libs doc_plain = Inr []
   \<and> add_bibliography sample_libs doc_plain ([], []) = ([CallBibliography], Inr doc_plain)
   \<and> snd (add_citations_and_bibliography sample_libs doc_plain ''harvard1'') = Inr doc_plain"
proof -
  have b: "bibliography sample_libs ([], []) = Inr []"
    by (simp add: sample_libs_def)
  have ex: "extract_citations sample_libs doc_plain = Inr []"
    by code_simp
  have src: "CiteProcJSON sample_libs [] = Inr []"
    and sty: "CitationStylesStyle sample_libs ''harvard1'' False = Inr ''harvard1''"
    and bib: "CitationStylesBibliography sample_libs ''harvard1'' [] = Inr ([], [])"
    by (simp_all add: sample_libs_def)
  note inst = empty_bibliography_leaves_tree_unchanged
    [of sample_libs "([], [])" doc_plain "[]" "''harvard1''" "''harvard1''"]
  from inst b have 1: "add_bibliography sample_libs doc_plain ([], []) = ([CallBibliography], Inr doc_plain)"
    by blast
  from inst b ex src sty bib
  have 2: "snd (add_citations_and_bibliography sample_libs doc_plain ''harvard1'') = Inr doc_plain"
    by blast
  from b ex 1 2 show ?thesis by blast
qed

section \<open>The bibliography container\<close>

text \<open>
  C9, on the document with one marker: the pipeline appends one \<^verbatim>\<open>div\<close> holding the
  heading and the ordered list with one item per entry, and this \<^verbatim>\<open>div\<close> has no attribute
  at all: no element of the result has the class \<^verbatim>\<open>dgtmon-bibliography\<close>.
\<close>

theorem bibliography_container_has_no_class:
  "snd (add_citations_and_bibliography sample_libs doc_smith ''harvard1'')
     = Inr [Tag ''p'' [] [NavigableString ''See '',
                           Tag ''cite'' [] [NavigableString ''Smith 2020''],
                           NavigableString ''.''],
            Tag ''div'' []
              [Tag ''h1'' [] [NavigableString ''Bibliography''],
               Tag ''ol'' [] [Tag ''li'' [] [NavigableString ''<small>A</small>'']]]]
   \<and> find_all
        [Tag ''p'' [] [NavigableString ''See '',
                           Tag ''cite'' [] [NavigableString ''Smith 2020''],
                           NavigableString ''.''],
            Tag ''div'' []
              [Tag ''h1'' [] [NavigableString ''Bibliography''],
               Tag ''ol'' [] [Tag ''li'' [] [NavigableString ''<small>A</small>'']]]]
        ''div'' [(''class'', ''dgtmon-bibliography'')] = []"
  by code_simp

section \<open>An item without identifier\<close>

lemma py_iter_errors: "py_iter v = Inl e \<Longrightarrow> e = TypeError"
  by (cases v) auto

lemma create_items_errors:
  "create_items L items acc = Inl e \<Longrightarrow> e = TypeError \<or> (\<exists>k. e = KeyError k)"
  by (induction items arbitrary: acc) (auto split: sum.splits dest: getitem_errors)

lemma create_groups_errors:
  "create_groups L groups acc = Inl e \<Longrightarrow> e = TypeError \<or> (\<exists>k. e = KeyError k)"
  by (induction groups arbitrary: acc)
     (auto split: sum.splits dest: getitem_errors py_iter_errors create_items_errors)

lemma create_items_missing_id:
  "it \<in> set items \<Longrightarrow> getitem it ''itemData'' = Inr d \<Longrightarrow> getitem d ''id'' = Inl e
   \<Longrightarrow> \<exists>e'. create_items L items acc = Inl e'"
proof (induction items arbitrary: acc)
  case Nil
  then show ?case by simp
next
  case (Cons x items)
  show ?case
  proof (cases "x = it")
    case True
    with Cons.prems show ?thesis by simp
  next
    case False
    with Cons.prems have "it \<in> set items" by simp
    from Cons.IH[OF this Cons.prems(2,3)] show ?thesis
      by (auto split: sum.splits)
  qed
qed

lemma create_groups_missing_id:
  "g \<in> set groups \<Longrightarrow> getitem g ''citationItems'' = Inr v \<Longrightarrow> py_iter v = Inr items
   \<Longrightarrow> create_items L items [] = Inl e
   \<Longrightarrow> \<exists>e'. create_groups L groups acc = Inl e'"
proof (induction groups arbitrary: acc)
  case Nil
  then show ?case by simp
next
  case (Cons x groups)
  show ?case
  proof (cases "x = g")
    case True
    with Cons.prems show ?thesis by simp
  next
    case False
    with Cons.prems have "g \<in> set groups" by simp
    from Cons.IH[OF this Cons.prems(2,3,4)] show ?thesis
      by (auto split: sum.splits)
  qed
qed

text \<open>
  C6, as the code has it. The identifier that the code reads is the \<^verbatim>\<open>id\<close> inside the
  \<^verbatim>\<open>itemData\<close> of an item, in \<^verbatim>\<open>create_citations_to_register\<close>; the \<^verbatim>\<open>id\<close> of the item
  itself is read nowhere. When an item of an extracted group has an
  \<^verbatim>\<open>itemData\<close> without it, building the citations to register raises a \<^verbatim>\<open>KeyError\<close> or
  \<^verbatim>\<open>TypeError\<close>; the whole run ends in an exception, with nothing registered and no marker
  replaced; and when the run gets as far as building the citations, the exception is
  that one.
\<close>

theorem missing_identifier_is_fatal:
  assumes "extract_citations L html_soup = Inr citations"
    and "g \<in> set citations"
    and "getitem g ''citationItems'' = Inr v"
    and "py_iter v = Inr items"
    and "it \<in> set items"
    and "getitem it ''itemData'' = Inr d"
    and "getitem d ''id'' = Inl e"
  shows "(\<exists>e'. create_citations_to_register L citations = Inl e'
              \<and> (e' = TypeError \<or> (\<exists>k. e' = KeyError k)))
       \<and> (\<exists>e'. snd (add_citations_and_bibliography L html_soup citation_style) = Inl e')
       \<and> (\<forall>ev\<in>set (fst (add_citations_and_bibliography L html_soup citation_style)).
             \<not> is_register ev \<and> \<not> is_replace ev)
       \<and> (\<forall>json_data src sty bib0.
             prepare_citations_for_citeproc citations = Inr json_data
           \<and> CiteProcJSON L json_data = Inr src
           \<and> CitationStylesStyle L citation_style False = Inr sty
           \<and> CitationStylesBibliography L sty src = Inr bib0
           \<longrightarrow> (\<exists>e'. create_citations_to_register L citations = Inl e'
                  \<and> snd (add_citations_and_bibliography L html_soup citation_style) = Inl e'))"
proof -
  from create_items_missing_id[OF assms(5,6,7)]
  obtain e1 where "create_items L items [] = Inl e1" by blast
  from create_groups_missing_id[OF assms(2,3,4) this]
  obtain e' where cr: "create_citations_to_register L citations = Inl e'"
    unfolding create_citations_to_register_def by blast
  then have kind: "e' = TypeError \<or> (\<exists>k. e' = KeyError k)"
    unfolding create_citations_to_register_def by (rule create_groups_errors)
  from pipeline_stages[of L html_soup citation_style] assms(1) cr
  obtain e2 pre where early:
    "add_citations_and_bibliography L html_soup citation_style = (pre, Inl e2)"
    "\<forall>ev\<in>set pre. \<not> is_register ev \<and> \<not> is_replace ev \<and> \<not> is_print ev \<and> \<not> is_cite ev"
    by auto
  have reached: "snd (add_citations_and_bibliography L html_soup citation_style) = Inl e'"
    if "prepare_citations_for_citeproc citations = Inr json_data"
      "CiteProcJSON L json_data = Inr src"
      "CitationStylesStyle L citation_style False = Inr sty"
      "CitationStylesBibliography L sty src = Inr bib0"
    for json_data src sty bib0
    using that assms(1) cr by (simp add: add_citations_and_bibliography_def)
  from cr kind early reached show ?thesis by auto
qed

theorem missing_identifier_is_fatal_witness:
  "extract_citations sample_libs doc_no_id = Inr [group_smith, group_no_id]
   \<and> getitem (JObj [(''title'', JStr ''T'')]) ''id'' = Inl (KeyError ''id'')
   \<and> create_citations_to_register sample_libs [group_smith, group_no_id] = Inl (KeyError ''id'')
   \<and> snd (add_citations_and_bibliography sample_libs doc_no_id ''harvard1'') = Inl (KeyError ''id'')"
proof -
  have ex: "extract_citations sample_libs doc_no_id = Inr [group_smith, group_no_id]"
    by code_simp
  have g: "group_no_id \<in> set [group_smith, group_no_id]" by simp
  have v: "getitem group_no_id ''citationItems''
           = Inr (JArr [JObj [(''itemData'', JObj [(''title'', JStr ''T'')])]])"
    by (simp add: group_no_id_def)
  have items: "py_iter (JArr [JObj [(''itemData'', JObj [(''title'', JStr ''T'')])]])
               = Inr [JObj [(''itemData'', JObj [(''title'', JStr ''T'')])]]"
    by simp
  have it: "JObj [(''itemData'', JObj [(''title'', JStr ''T'')])]
            \<in> set [JObj [(''itemData'', JObj [(''title'', JStr ''T'')])]]"
    by simp
  have d: "getitem (JObj [(''itemData'', JObj [(''title'', JStr ''T'')])]) ''itemData''
           = Inr (JObj [(''title'', JStr ''T'')])"
    by simp
  have e: "getitem (JObj [(''title'', JStr ''T'')]) ''id'' = Inl (KeyError ''id'')"
    by simp
  have cr: "create_citations_to_register sample_libs [group_smith, group_no_id] = Inl (KeyError ''id'')"
    by code_simp
  have pr: "prepare_citations_for_citeproc [group_smith, group_no_id]
            = Inr [JObj [(''id'', JStr ''A''), (''title'', JStr ''T'')], JObj [(''title'', JStr ''T'')]]"
    by code_simp
  have src: "CiteProcJSON sample_libs
               [JObj [(''id'', JStr ''A''), (''title'', JStr ''T'')], JObj [(''title'', JStr ''T'')]]
             = Inr [''A'']"
    and sty: "CitationStylesStyle sample_libs ''harvard1'' False = Inr ''harvard1''"
    and bib: "CitationStylesBibliography sample_libs ''harvard1'' [''A''] = Inr ([''A''], [])"
    by (simp_all add: sample_libs_def)
  from missing_identifier_is_fatal[OF ex g v items it d e, of "''harvard1''"] pr src sty bib
  obtain e' where "create_citations_to_register sample_libs [group_smith, group_no_id] = Inl e'"
    "snd (add_citations_and_bibliography sample_libs doc_no_id ''harvard1'') = Inl e'"
    by blast
  with cr have "snd (add_citations_and_bibliography sample_libs doc_no_id ''harvard1'') = Inl (KeyError ''id'')"
    by simp
  with ex e cr show ?thesis by blast
qed

text \<open>
  C6 as written fails on the document with one marker: the one item of its group has
  no \<^verbatim>\<open>id\<close> of its own, only the \<^verbatim>\<open>id\<close> inside its \<^verbatim>\<open>itemData\<close>, and the run returns the
  rewritten document. A marker whose payload does not decode, on the other hand, ends the
  run.
\<close>

theorem item_without_own_id_counterexample:
  "extract_citations sample_libs doc_smith = Inr [group_smith]
   \<and> getitem group_smith ''citationItems''
     = Inr (JArr [JObj [(''itemData'', JObj [(''id'', JStr ''A''), (''title'', JStr ''T'')])]])
   \<and> getitem (JObj [(''itemData'', JObj [(''id'', JStr ''A''), (''title'', JStr ''T'')])]) ''id''
     = Inl (KeyError ''id'')
   \<and> snd (add_citations_and_bibliography sample_libs doc_smith ''harvard1'')
     = Inr [Tag ''p'' [] [NavigableString ''See '',
                           Tag ''cite'' [] [NavigableString ''Smith 2020''],
                           NavigableString ''.''],
            Tag ''div'' []
              [Tag ''h1'' [] [NavigableString ''Bibliography''],
               Tag ''ol'' [] [Tag ''li'' [] [NavigableString ''<small>A</small>'']]]]
   \<and> snd (add_citations_and_bibliography sample_libs doc_not_json ''harvard1'')
     = Inl (Raised JSONDecodeError)"
  by code_simp

section \<open>The text that replaces a marker\<close>

lemma plain_citation_Some:
  "plain_citation c = Some s
   \<Longrightarrow> \<exists>props. getitem c ''properties'' = Inr props
           \<and> getitem props ''plainCitation'' = Inr (JStr s)"
  by (auto simp: plain_citation_def split: sum.splits json.splits)

lemma assign_string_JStr:
  "assign_string L (new_tag ''cite'' None []) (JStr s) = Inr (Tag ''cite'' [] [NavigableString s])"
  by (simp add: assign_string_def new_tag_def)

lemma add_citations_loop_plain:
  "extract_loop L spans acc = Inr cs
   \<Longrightarrow> map plain_citation (drop (length acc) cs) = map Some texts
   \<Longrightarrow> \<exists>t'. add_citations_loop L cs spans (length acc) replaced t
            = (map2 (\<lambda>(p, span) s. ReplaceWith p (Tag ''cite'' [] [NavigableString s]))
                 (filter (\<lambda>(p, span). qualifies span) spans) texts,
               Inr t')"
proof (induction spans arbitrary: acc replaced t texts)
  case Nil
  then show ?case by simp
next
  case (Cons a spans)
  obtain p span where a: "a = (p, span)" by (cases a)
  show ?case
  proof (cases "has_inner_json_data span")
    case (Inl e)
    with Cons.prems show ?thesis by (simp add: a)
  next
    case (Inr b)
    show ?thesis
    proof (cases b)
      case False
      with Inr Cons.prems Cons.IH[of acc texts replaced t] show ?thesis
        by (simp add: a qualifies_def)
    next
      case True
      with Inr Cons.prems obtain c where c: "extract_loop L spans (acc @ [c]) = Inr cs"
        by (auto simp: a split: sum.splits)
      from extract_loop_length[OF c] have lt: "length acc < length cs" by simp
      then have dr: "drop (length acc) cs = cs ! length acc # drop (Suc (length acc)) cs"
        by (simp add: Cons_nth_drop_Suc)
      with Cons.prems(2) obtain s texts' where texts: "texts = s # texts'"
        and s: "plain_citation (cs ! length acc) = Some s"
        and rest: "map plain_citation (drop (length (acc @ [c])) cs) = map Some texts'"
        by (cases texts) auto
      from plain_citation_Some[OF s] obtain props where props:
        "getitem (cs ! length acc) ''properties'' = Inr props"
        "getitem props ''plainCitation'' = Inr (JStr s)"
        by blast
      let ?new = "Tag ''cite'' [] [NavigableString s]"
      from Cons.IH[OF c rest, of "replaced @ [p]"
          "if detached replaced p then t else replace_at t p ?new"]
      obtain t' where
        "add_citations_loop L cs spans (Suc (length acc)) (replaced @ [p])
           (if detached replaced p then t else replace_at t p ?new)
         = (map2 (\<lambda>(p, span) s. ReplaceWith p (Tag ''cite'' [] [NavigableString s]))
                 (filter (\<lambda>(p, span). qualifies span) spans) texts',
            Inr t')"
        by auto
      with Inr True lt props texts show ?thesis
        by (simp add: a qualifies_def list_getitem_def assign_string_JStr)
    qed
  qed
qed

lemma pipeline_never_prints:
  "\<forall>ev\<in>set (fst (add_citations_and_bibliography L html_soup citation_style)).
     \<not> is_print ev \<and> \<not> is_cite ev"
proof -
  from pipeline_stages[of L html_soup citation_style]
  consider (early) e pre where
      "add_citations_and_bibliography L html_soup citation_style = (pre, Inl e)"
      "\<forall>ev\<in>set pre. \<not> is_register ev \<and> \<not> is_replace ev \<and> \<not> is_print ev \<and> \<not> is_cite ev"
    | (late) citations json_data src sty bib0 cc where
      "extract_citations L html_soup = Inr citations"
      "prepare_citations_for_citeproc citations = Inr json_data"
      "CiteProcJSON L json_data = Inr src"
      "CitationStylesStyle L citation_style False = Inr sty"
      "CitationStylesBibliography L sty src = Inr bib0"
      "create_citations_to_register L citations = Inr cc"
    by blast
  then show ?thesis
  proof cases
    case early
    then show ?thesis by simp
  next
    case late
    from rewriting_trace[of L cc bib0 html_soup citations]
    obtain k reps post where tr:
      "fst (and_then (register_all L cc bib0) (\<lambda>bib.
            and_then (add_citations L html_soup cc citations bib) (\<lambda>html_soup'.
            add_bibliography L html_soup' bib)))
         = map CallRegister (take k cc) @ reps @ post"
      "\<forall>ev\<in>set reps. is_replace ev"
      "\<forall>ev\<in>set post. ev = CallBibliography"
      by blast
    have "\<not> is_print ev \<and> \<not> is_cite ev" if "ev \<in> set reps" for ev
    proof -
      from that tr(2) have "is_replace ev" by simp
      then show ?thesis by (cases ev) simp_all
    qed
    moreover have "\<not> is_print ev \<and> \<not> is_cite ev" if "ev \<in> set post" for ev
    proof -
      from that tr(3) have "ev = CallBibliography" by blast
      then show ?thesis by simp
    qed
    ultimately show ?thesis
      using pipeline_from_registration[OF late] tr(1) by auto
  qed
qed

section \<open>Places in the tree\<close>

lemma node_at_replace_at_same:
  "node_at t p \<noteq> None \<Longrightarrow> node_at (replace_at t p new) p = Some new"
proof (induction t p new rule: replace_at.induct)
  case (1 ns new)
  then show ?case by simp
next
  case (2 ns i new)
  then show ?case by (simp split: if_splits)
next
  case (3 ns i j p new)
  then show ?case by (auto split: if_splits node.splits)
qed

lemma node_at_replace_at_other:
  "\<not> prefix q p \<Longrightarrow> \<not> prefix p q \<Longrightarrow> node_at (replace_at t q x) p = node_at t p"
proof (induction t q x arbitrary: p rule: replace_at.induct)
  case (1 ns new)
  then show ?case by simp
next
  case (2 ns i new)
  then obtain k rest where p: "p = k # rest" by (cases p) auto
  with 2 have "k \<noteq> i" by auto
  then show ?case unfolding p by (cases rest) (auto split: node.splits)
next
  case (3 ns i j q new)
  then obtain k rest where p: "p = k # rest" by (cases p) auto
  show ?case
  proof (cases "k = i")
    case False
    then show ?thesis unfolding p by (cases rest) (auto split: node.splits)
  next
    case True
    with 3(2,3) p obtain j' p' where rest: "rest = j' # p'" by (cases rest) auto
    from 3(2,3) have par: "\<not> prefix (j # q) (j' # p')" "\<not> prefix (j' # p') (j # q)"
      unfolding p rest True by auto
    show ?thesis
    proof (cases "i < length ns")
      case False
      then show ?thesis by simp
    next
      case il: True
      show ?thesis
      proof (cases "ns ! i")
        case (NavigableString s)
        with il show ?thesis by simp
      next
        case (Tag n a cs)
        from 3(1)[OF il Tag par] il Tag show ?thesis
          unfolding p rest True by simp
      qed
    qed
  qed
qed

lemma descendants_below:
  "(q, n) \<in> set (descendants p i ns) \<Longrightarrow> \<exists>j rest. q = p @ j # rest \<and> i \<le> j"
proof (induction p i ns rule: descendants.induct)
  case (1 p i)
  then show ?case by simp
next
  case (2 p i s ns)
  then show ?case by (auto dest: Suc_leD)
next
  case (3 p i n' a cs ns)
  from 3(3) consider "q = p @ [i]" | "(q, n) \<in> set (descendants (p @ [i]) 0 cs)"
    | "(q, n) \<in> set (descendants p (Suc i) ns)"
    by auto
  then show ?case
  proof cases
    case 1
    then show ?thesis by auto
  next
    case 2
    from 3(1)[OF this] show ?thesis by auto
  next
    case 3
    from "3.IH"(2)[OF this] show ?thesis by (auto dest: Suc_leD)
  qed
qed

lemma doc_order_append:
  "doc_order (xs @ ys) = (doc_order xs \<and> doc_order ys \<and> (\<forall>x\<in>set xs. \<forall>y\<in>set ys. \<not> prefix y x))"
  by (induction xs) auto

lemma doc_order_filter:
  "doc_order (map fst xs) \<Longrightarrow> doc_order (map fst (filter P xs))"
  by (induction xs) auto

lemma doc_order_descendants: "doc_order (map fst (descendants p i ns))"
proof (induction p i ns rule: descendants.induct)
  case (1 p i)
  then show ?case by simp
next
  case (2 p i s ns)
  then show ?case by simp
next
  case (3 p i n a cs ns)
  have inner: "\<not> prefix q (p @ [i])" if "(q, m) \<in> set (descendants (p @ [i]) 0 cs)" for q m
  proof -
    from descendants_below[OF that] obtain j rest where "q = (p @ [i]) @ j # rest" by blast
    then show ?thesis by (auto simp: prefix_def)
  qed
  have later: "\<not> prefix q (p @ [i])" if "(q, m) \<in> set (descendants p (Suc i) ns)" for q m
  proof -
    from descendants_below[OF that] obtain j rest where "q = p @ j # rest" "Suc i \<le> j" by blast
    then show ?thesis by (auto simp: prefix_def Cons_eq_append_conv)
  qed
  have cross: "\<not> prefix q r"
    if "(r, m) \<in> set (descendants (p @ [i]) 0 cs)" "(q, m') \<in> set (descendants p (Suc i) ns)"
    for q r m m'
  proof -
    from descendants_below[OF that(1)] obtain j rest where r: "r = (p @ [i]) @ j # rest" by blast
    from descendants_below[OF that(2)] obtain j' rest' where q: "q = p @ j' # rest'" "Suc i \<le> j'"
      by blast
    show ?thesis unfolding r q(1) using q(2) by (auto simp: prefix_def Cons_eq_append_conv)
  qed
  from 3 inner later cross show ?case
    by (auto simp: doc_order_append)
qed

lemma descendants_node_at:
  "(q, n) \<in> set (descendants p i ns) \<Longrightarrow> ns = drop i cs
   \<Longrightarrow> \<exists>rest. q = p @ rest \<and> node_at cs rest = Some n"
proof (induction p i ns arbitrary: cs rule: descendants.induct)
  case (1 p i)
  then show ?case by simp
next
  case (2 p i s ns)
  from 2(3) have "ns = drop (Suc i) cs"
    by (metis drop_Suc list.sel(3) tl_drop)
  with 2 show ?case by auto
next
  case (3 p i n' a cs' ns)
  from 3(4) have il: "i < length cs" and ci: "cs ! i = Tag n' a cs'" and tl: "ns = drop (Suc i) cs"
    by (metis drop_eq_Nil leI list.distinct(1), metis nth_via_drop, metis drop_Suc list.sel(3) tl_drop)
  from 3(3) consider "q = p @ [i]" "n = Tag n' a cs'"
    | "(q, n) \<in> set (descendants (p @ [i]) 0 cs')"
    | "(q, n) \<in> set (descendants p (Suc i) ns)"
    by auto
  then show ?case
  proof cases
    case 1
    with il ci show ?thesis by (intro exI[of _ "[i]"]) simp
  next
    case 2
    from "3.IH"(1)[OF this, of cs'] obtain rest where rest: "q = (p @ [i]) @ rest" "node_at cs' rest = Some n"
      by auto
    then obtain j r where "rest = j # r" by (cases rest) auto
    with rest il ci show ?thesis by (intro exI[of _ "i # rest"]) simp
  next
    case 3
    from "3.IH"(2)[OF this tl] show ?thesis .
  qed
qed

lemma find_all_node_at:
  "(p, span) \<in> set (find_all_citation_spans html_soup) \<Longrightarrow> node_at html_soup p = Some span"
  using descendants_node_at[of p span "[]" 0 html_soup html_soup]
  by (auto simp: find_all_citation_spans_def find_all_def)

lemma find_all_doc_order: "doc_order (map fst (find_all_citation_spans html_soup))"
  unfolding find_all_citation_spans_def find_all_def
  by (intro doc_order_filter doc_order_descendants)

section \<open>What the rewriting leaves at the place of a marker\<close>

lemma detached_append: "detached (R @ S) p = (detached R p \<or> detached S p)"
  by (simp add: detached_def)

lemma detached_Cons: "detached (q # S) p = (strict_prefix q p \<or> detached S p)"
  by (simp add: detached_def)

lemma detached_member: "q \<in> set R \<Longrightarrow> strict_prefix q p \<Longrightarrow> detached R p"
  by (auto simp: detached_def list_ex_iff)

lemma add_citations_loop_step:
  assumes "snd (add_citations_loop L citations ((q, sq) # spans) i R t) = Inr t'"
    and "has_inner_json_data sq = Inr True"
  obtains citation props v new where
    "list_getitem citations i = Inr citation"
    "getitem citation ''properties'' = Inr props"
    "getitem props ''plainCitation'' = Inr v"
    "assign_string L (new_tag ''cite'' None []) v = Inr new"
    "snd (add_citations_loop L citations spans (Suc i) (R @ [q])
            (if detached R q then t else replace_at t q new)) = Inr t'"
  using assms by (auto split: sum.splits if_splits simp: split_beta)

lemma add_citations_loop_keeps:
  "snd (add_citations_loop L citations spans i R t) = Inr t' \<Longrightarrow> p \<in> set R
   \<Longrightarrow> \<forall>q\<in>set (map fst spans). \<not> prefix q p
   \<Longrightarrow> node_at t' p = node_at t p"
proof (induction spans arbitrary: i R t)
  case Nil
  then show ?case by simp
next
  case (Cons a spans)
  obtain q sq where a: "a = (q, sq)" by (cases a)
  from Cons.prems(3) have qp: "\<not> prefix q p" and rest: "\<forall>q\<in>set (map fst spans). \<not> prefix q p"
    by (simp_all add: a)
  show ?case
  proof (cases "has_inner_json_data sq")
    case (Inl e)
    with Cons.prems(1) show ?thesis by (simp add: a)
  next
    case (Inr b)
    show ?thesis
    proof (cases b)
      case False
      with Inr Cons.prems(1) have "snd (add_citations_loop L citations spans i R t) = Inr t'"
        by (simp add: a)
      from Cons.IH[OF this Cons.prems(2) rest] show ?thesis .
    next
      case True
      with Inr have q: "has_inner_json_data sq = Inr True" by simp
      from Cons.prems(1)[unfolded a] q obtain citation props v new where
        run: "snd (add_citations_loop L citations spans (Suc i) (R @ [q])
                (if detached R q then t else replace_at t q new)) = Inr t'"
        by (rule add_citations_loop_step)
      from Cons.prems(2) have "p \<in> set (R @ [q])" by simp
      from Cons.IH[OF run this rest]
      have 1: "node_at t' p = node_at (if detached R q then t else replace_at t q new) p" .
      have 2: "node_at (replace_at t q new) p = node_at t p" if "\<not> detached R q"
      proof -
        from that Cons.prems(2) have "\<not> strict_prefix p q"
          using detached_member by blast
        moreover from qp have "p \<noteq> q" by auto
        ultimately have "\<not> prefix p q" by (simp add: strict_prefix_def)
        with qp show ?thesis by (rule node_at_replace_at_other)
      qed
      from 1 2 show ?thesis by (cases "detached R q") simp_all
    qed
  qed
qed

lemma add_citations_loop_replaces:
  "snd (add_citations_loop L citations spans i R t) = Inr t'
   \<Longrightarrow> doc_order (map fst spans)
   \<Longrightarrow> k < length (filter (\<lambda>(p, span). qualifies span) spans)
   \<Longrightarrow> filter (\<lambda>(p, span). qualifies span) spans ! k = (p, span)
   \<Longrightarrow> \<not> detached (R @ map fst (take k (filter (\<lambda>(p, span). qualifies span) spans))) p
   \<Longrightarrow> node_at t p \<noteq> None
   \<Longrightarrow> plain_citation (citations ! (i + k)) = Some s
   \<Longrightarrow> node_at t' p = Some (Tag ''cite'' [] [NavigableString s])"
proof (induction spans arbitrary: i R t k)
  case Nil
  then show ?case by simp
next
  case (Cons a spans)
  obtain q sq where a: "a = (q, sq)" by (cases a)
  let ?Q = "filter (\<lambda>(p, span). qualifies span) spans"
  from Cons.prems(2) have later: "\<forall>r\<in>set (map fst spans). \<not> prefix r q"
    and order: "doc_order (map fst spans)"
    by (simp_all add: a)
  show ?case
  proof (cases "has_inner_json_data sq")
    case (Inl e)
    with Cons.prems(1) show ?thesis by (simp add: a)
  next
    case (Inr b)
    show ?thesis
    proof (cases b)
      case False
      with Inr have nq: "\<not> qualifies sq" by (simp add: qualifies_def)
      from False Inr Cons.prems(1) have run: "snd (add_citations_loop L citations spans i R t) = Inr t'"
        by (simp add: a)
      from nq Cons.prems(3,4,5) have "k < length ?Q" "?Q ! k = (p, span)"
        "\<not> detached (R @ map fst (take k ?Q)) p"
        by (simp_all add: a)
      from Cons.IH[OF run order this Cons.prems(6,7)] show ?thesis .
    next
      case True
      with Inr have hq: "has_inner_json_data sq = Inr True" by simp
      then have qq: "qualifies sq" by (simp add: qualifies_def)
      from Cons.prems(1)[unfolded a] hq obtain citation props v new where
        step: "list_getitem citations i = Inr citation"
          "getitem citation ''properties'' = Inr props"
          "getitem props ''plainCitation'' = Inr v"
          "assign_string L (new_tag ''cite'' None []) v = Inr new"
        and run: "snd (add_citations_loop L citations spans (Suc i) (R @ [q])
                (if detached R q then t else replace_at t q new)) = Inr t'"
        by (rule add_citations_loop_step)
      show ?thesis
      proof (cases k)
        case 0
        with qq Cons.prems(4) have pq: "p = q" by (simp add: a)
        from 0 Cons.prems(5) have nd: "\<not> detached R q" by (simp add: pq)
        from step(1) have "citation = citations ! i"
          by (simp add: list_getitem_def split: if_splits)
        with 0 Cons.prems(7) have "plain_citation citation = Some s" by simp
        from plain_citation_Some[OF this] step(2,3) have "v = JStr s" by auto
        with step(4) have new: "new = Tag ''cite'' [] [NavigableString s]"
          by (simp add: assign_string_JStr)
        from nd run have run': "snd (add_citations_loop L citations spans (Suc i) (R @ [q])
                (replace_at t q new)) = Inr t'"
          by simp
        have "q \<in> set (R @ [q])" by simp
        from add_citations_loop_keeps[OF run' this later]
        have "node_at t' q = node_at (replace_at t q new) q" .
        also from Cons.prems(6) have "\<dots> = Some new"
          unfolding pq by (rule node_at_replace_at_same)
        finally show ?thesis by (simp add: pq new)
      next
        case (Suc k')
        with qq Cons.prems(3,4) have k': "k' < length ?Q" "?Q ! k' = (p, span)"
          by (simp_all add: a)
        from Suc qq Cons.prems(5) have nd: "\<not> detached ((R @ [q]) @ map fst (take k' ?Q)) p"
          and nsp: "\<not> strict_prefix q p"
          by (simp_all add: a detached_append detached_Cons)
        from k' have "(p, span) \<in> set ?Q" by (metis nth_mem)
        then have "p \<in> set (map fst spans)" by force
        with later have npq: "\<not> prefix p q" by blast
        then have "p \<noteq> q" by auto
        with nsp have nqp: "\<not> prefix q p" by (auto simp: strict_prefix_def)
        from nqp npq have "node_at (replace_at t q new) p = node_at t p"
          by (rule node_at_replace_at_other)
        with Cons.prems(6)
        have valid: "node_at (if detached R q then t else replace_at t q new) p \<noteq> None"
          by simp
        from Suc Cons.prems(7) have "plain_citation (citations ! (Suc i + k')) = Some s"
          by simp
        from Cons.IH[OF run order k' nd valid this] show ?thesis .
      qed
    qed
  qed
qed

section \<open>Each group comes from its marker\<close>

lemma extract_loop_keeps_acc:
  "extract_loop L spans acc = Inr cs \<Longrightarrow> take (length acc) cs = acc"
proof (induction spans arbitrary: acc)
  case Nil
  then show ?case by simp
next
  case (Cons a spans)
  obtain p span where a: "a = (p, span)" by (cases a)
  from Cons.prems show ?case unfolding a
  proof (auto split: sum.splits bool.splits dest!: Cons.IH)
    fix c assume "take (Suc (length acc)) cs = acc @ [c]"
    then have "take (length acc) (take (Suc (length acc)) cs) = take (length acc) (acc @ [c])"
      by simp
    then show "take (length acc) cs = acc" by simp
  qed
qed

lemma extract_loop_nth:
  "extract_loop L spans acc = Inr cs
   \<Longrightarrow> k < length (filter (\<lambda>(p, span). qualifies span) spans)
   \<Longrightarrow> filter (\<lambda>(p, span). qualifies span) spans ! k = (p, span)
   \<Longrightarrow> \<exists>v. attrs_getitem span ''data-src'' = Inr v
          \<and> decode_data_src L v = Inr (cs ! (length acc + k))"
proof (induction spans arbitrary: acc k)
  case Nil
  then show ?case by simp
next
  case (Cons a spans)
  obtain q sq where a: "a = (q, sq)" by (cases a)
  show ?case
  proof (cases "has_inner_json_data sq")
    case (Inl e)
    with Cons.prems(1) show ?thesis by (simp add: a)
  next
    case (Inr b)
    show ?thesis
    proof (cases b)
      case False
      with Inr Cons.prems Cons.IH[of acc k] show ?thesis
        by (simp add: a qualifies_def)
    next
      case True
      with Inr Cons.prems(1) obtain v c where v: "attrs_getitem sq ''data-src'' = Inr v"
        "decode_data_src L v = Inr c" and c: "extract_loop L spans (acc @ [c]) = Inr cs"
        by (auto simp: a split: sum.splits)
      from extract_loop_keeps_acc[OF c] have "take (Suc (length acc)) cs ! length acc = (acc @ [c]) ! length acc"
        by simp
      then have c0: "cs ! length acc = c" by simp
      show ?thesis
      proof (cases k)
        case 0
        with True Inr Cons.prems(3) v c0 show ?thesis by (simp add: a qualifies_def)
      next
        case (Suc k')
        with True Inr Cons.prems(2,3) Cons.IH[OF c, of k'] show ?thesis
          by (simp add: a qualifies_def)
      qed
    qed
  qed
qed

section \<open>A marker is replaced by the plain citation of its group\<close>

text \<open>
  C1, as the code has it. Let the groups of a document be extracted and the rewriting
  return. The \<open>i\<close>-th group is the one decoded from the \<open>i\<close>-th qualifying marker in
  document order; when that marker does not lie inside an earlier qualifying marker and
  the group has a string as its \<^verbatim>\<open>plainCitation\<close>, the rewritten tree has, at the place
  where the marker was, a \<^verbatim>\<open>cite\<close> element holding that string. The replacements sit at
  the places of their markers, so they come in the order of the markers. \<^verbatim>\<open>cite\<close> of the
  style engine is not called.
\<close>

theorem marker_replaced_by_plain_citation:
  assumes "extract_citations L html_soup = Inr citations"
    and "snd (add_citations L html_soup citeproc_citations citations bib) = Inr html_soup'"
    and "i < length (qualifying_spans html_soup)"
    and "qualifying_spans html_soup ! i = (p, span)"
    and "\<not> detached (map fst (take i (qualifying_spans html_soup))) p"
    and "plain_citation (citations ! i) = Some s"
  shows "node_at html_soup p = Some span
       \<and> (\<exists>v. attrs_getitem span ''data-src'' = Inr v \<and> decode_data_src L v = Inr (citations ! i))
       \<and> node_at html_soup' p = Some (Tag ''cite'' [] [NavigableString s])
       \<and> (\<forall>ev\<in>set (fst (add_citations L html_soup citeproc_citations citations bib)). \<not> is_cite ev)"
proof -
  from assms(3,4) have "(p, span) \<in> set (qualifying_spans html_soup)"
    by (metis nth_mem)
  then have "(p, span) \<in> set (find_all_citation_spans html_soup)"
    by (simp add: qualifying_spans_def)
  then have at: "node_at html_soup p = Some span" by (rule find_all_node_at)
  from assms(1,3,4) extract_loop_nth[of L "find_all_citation_spans html_soup" "[]" citations i p span]
  have dec: "\<exists>v. attrs_getitem span ''data-src'' = Inr v \<and> decode_data_src L v = Inr (citations ! i)"
    by (simp add: extract_citations_def qualifying_spans_def)
  have new: "node_at html_soup' p = Some (Tag ''cite'' [] [NavigableString s])"
    using assms(2-6) at find_all_doc_order[of html_soup]
      add_citations_loop_replaces[of L citations "find_all_citation_spans html_soup" 0 "[]"
        html_soup html_soup' i p span s]
    by (simp add: add_citations_def qualifying_spans_def)
  have "\<not> is_cite ev" if "ev \<in> set (fst (add_citations L html_soup citeproc_citations citations bib))" for ev
  proof -
    from that add_citations_loop_trace have "is_replace ev"
      unfolding add_citations_def by blast
    then show ?thesis by (cases ev) simp_all
  qed
  with at dec new show ?thesis by blast
qed

theorem marker_replaced_by_plain_citation_witness:
  "extract_citations sample_libs doc_smith = Inr [group_smith]
   \<and> qualifying_spans doc_smith = [([0, 1], marker payload_smith)]
   \<and> node_at doc_smith [0, 1] = Some (marker payload_smith)
   \<and> node_at [Tag ''p'' [] [NavigableString ''See '',
                              Tag ''cite'' [] [NavigableString ''Smith 2020''],
                              NavigableString ''.'']] [0, 1]
     = Some (Tag ''cite'' [] [NavigableString ''Smith 2020''])"
proof -
  have ex: "extract_citations sample_libs doc_smith = Inr [group_smith]"
    by code_simp
  have run: "snd (add_citations sample_libs doc_smith [Citation [CitationItem ''A'']] [group_smith]
                   ([''A''], [''A'']))
             = Inr [Tag ''p'' [] [NavigableString ''See '',
                                   Tag ''cite'' [] [NavigableString ''Smith 2020''],
                                   NavigableString ''.'']]"
    by code_simp
  have q: "qualifying_spans doc_smith = [([0, 1], marker payload_smith)]"
    by code_simp
  have i: "0 < length (qualifying_spans doc_smith)"
    and at: "qualifying_spans doc_smith ! 0 = ([0, 1], marker payload_smith)"
    and nd: "\<not> detached (map fst (take 0 (qualifying_spans doc_smith))) [0, 1]"
    by (simp_all add: q detached_def)
  have pl: "plain_citation ([group_smith] ! 0) = Some ''Smith 2020''"
    by code_simp
  from marker_replaced_by_plain_citation[OF ex run i at nd pl]
  have "node_at doc_smith [0, 1] = Some (marker payload_smith)
      \<and> node_at [Tag ''p'' [] [NavigableString ''See '',
                              Tag ''cite'' [] [NavigableString ''Smith 2020''],
                              NavigableString ''.'']] [0, 1]
        = Some (Tag ''cite'' [] [NavigableString ''Smith 2020''])"
    by blast
  with ex q show ?thesis by blast
qed

text \<open>
  The claim as written fails on the document with one marker: the style engine would
  cite the group as \<^verbatim>\<open>(A)\<close>, the marker is replaced by the plain citation of the group,
  and the run has not called \<^verbatim>\<open>cite\<close>.
\<close>

theorem marker_replaced_by_cite_result_counterexample:
  "add_citations_and_bibliography sample_libs doc_smith ''harvard1''
     = ([CallCiteProcJSON [JObj [(''id'', JStr ''A''), (''title'', JStr ''T'')]],
         CallCitationStylesStyle ''harvard1'', CallCitationStylesBibliography,
         CallRegister (Citation [CitationItem ''A'']),
         ReplaceWith [0, 1] (Tag ''cite'' [] [NavigableString ''Smith 2020'']),
         CallBibliography, CallBibliography],
        Inr [Tag ''p'' [] [NavigableString ''See '',
                            Tag ''cite'' [] [NavigableString ''Smith 2020''],
                            NavigableString ''.''],
             Tag ''div'' []
               [Tag ''h1'' [] [NavigableString ''Bibliography''],
                Tag ''ol'' [] [Tag ''li'' [] [NavigableString ''<small>A</small>'']]]])
   \<and> snd (register_all sample_libs [Citation [CitationItem ''A'']] ([''A''], []))
     = Inr ([''A''], [''A''])
   \<and> cite sample_libs ([''A''], [''A'']) (Citation [CitationItem ''A'']) = Inr (''(A)'', [])
   \<and> ''(A)'' \<noteq> ''Smith 2020''"
  by code_simp

section \<open>A marker whose payload is absent or does not decode\<close>

lemma extract_loop_append:
  "extract_loop L (xs @ ys) acc
   = (case extract_loop L xs acc of Inl e \<Rightarrow> Inl e | Inr cs \<Rightarrow> extract_loop L ys cs)"
  by (induction xs arbitrary: acc) (auto split: sum.splits bool.splits)

lemma found_span_is_tag:
  "(p, span) \<in> set (find_all_citation_spans html_soup) \<Longrightarrow> \<exists>n a c. span = Tag n a c"
  by (cases span) (auto simp: find_all_citation_spans_def find_all_def)

lemma add_citations_loop_replaces_qualifying:
  "ReplaceWith p new \<in> set (fst (add_citations_loop L citations spans i R t))
   \<Longrightarrow> \<exists>span. (p, span) \<in> set spans \<and> qualifies span"
proof (induction spans arbitrary: i R t)
  case Nil
  then show ?case by simp
next
  case (Cons a spans)
  obtain q sq where a: "a = (q, sq)" by (cases a)
  from Cons.prems show ?case unfolding a
    by (auto split: sum.splits bool.splits if_splits simp: split_beta qualifies_def
          dest!: Cons.IH)
qed

text \<open>
  C4, as the code has it. Take a citation span of the document such that extraction gets
  past the spans before it. If it has no \<^verbatim>\<open>data-src\<close> attribute, the run raises
  \<^verbatim>\<open>KeyError\<close>; if its \<^verbatim>\<open>data-src\<close> starts with the prefix and the payload does not decode,
  the run raises the exception of the decoder; in both cases the run has done nothing
  else, and has recorded no warning. Only a span whose \<^verbatim>\<open>data-src\<close> is a string that
  does not start with the prefix is skipped: extraction goes on with the spans after it,
  and the rewriting does not replace it.
\<close>

theorem marker_without_decodable_payload:
  assumes "find_all_citation_spans html_soup = pre @ (p, span) # post"
    and "extract_loop L pre [] = Inr cs"
  shows "(attrs_getitem span ''data-src'' = Inl e
            \<longrightarrow> e = KeyError ''data-src''
              \<and> add_citations_and_bibliography L html_soup citation_style = ([], Inl e))
       \<and> (attrs_getitem span ''data-src'' = Inr (AttrStr s) \<and> prefix json_prefix s
            \<and> decode_data_src L (AttrStr s) = Inl e
            \<longrightarrow> add_citations_and_bibliography L html_soup citation_style = ([], Inl e))
       \<and> (attrs_getitem span ''data-src'' = Inr (AttrStr s) \<and> \<not> prefix json_prefix s
            \<longrightarrow> extract_citations L html_soup = extract_loop L post cs
              \<and> (\<forall>new. ReplaceWith p new
                    \<notin> set (fst (add_citations L html_soup citeproc_citations citations bib))))"
proof (intro conjI impI)
  have ex: "extract_citations L html_soup = extract_loop L ((p, span) # post) cs"
    using assms by (simp add: extract_citations_def extract_loop_append)
  have mem: "(p, span) \<in> set (find_all_citation_spans html_soup)"
    using assms(1) by simp
  {
    assume a: "attrs_getitem span ''data-src'' = Inl e"
    from found_span_is_tag[OF mem] obtain n at c where "span = Tag n at c" by blast
    with a show "e = KeyError ''data-src''" by (auto split: option.splits)
    from a ex have "extract_citations L html_soup = Inl e"
      by (simp add: has_inner_json_data_def)
    then show "add_citations_and_bibliography L html_soup citation_style = ([], Inl e)"
      by (simp add: add_citations_and_bibliography_def)
  }
  {
    assume a: "attrs_getitem span ''data-src'' = Inr (AttrStr s) \<and> prefix json_prefix s
            \<and> decode_data_src L (AttrStr s) = Inl e"
    with ex have "extract_citations L html_soup = Inl e"
      by (simp add: has_inner_json_data_def)
    then show "add_citations_and_bibliography L html_soup citation_style = ([], Inl e)"
      by (simp add: add_citations_and_bibliography_def)
  }
  {
    assume a: "attrs_getitem span ''data-src'' = Inr (AttrStr s) \<and> \<not> prefix json_prefix s"
    with ex show "extract_citations L html_soup = extract_loop L post cs"
      by (simp add: has_inner_json_data_def)
    from a have nq: "\<not> qualifies span" by (simp add: qualifies_def has_inner_json_data_def)
    show "\<forall>new. ReplaceWith p new
            \<notin> set (fst (add_citations L html_soup citeproc_citations citations bib))"
    proof (intro allI notI)
      fix new
      assume "ReplaceWith p new \<in> set (fst (add_citations L html_soup citeproc_citations citations bib))"
      from add_citations_loop_replaces_qualifying[OF this[unfolded add_citations_def]]
      obtain sp where sp: "(p, sp) \<in> set (find_all_citation_spans html_soup)" "qualifies sp"
        by blast
      from find_all_node_at[OF sp(1)] find_all_node_at[OF mem] have "sp = span" by simp
      with sp(2) nq show False by simp
    qed
  }
qed

theorem marker_without_decodable_payload_witness:
  "add_citations_and_bibliography sample_libs doc_no_payload ''harvard1''
     = ([], Inl (KeyError ''data-src''))
   \<and> add_citations_and_bibliography sample_libs doc_not_json ''harvard1''
     = ([], Inl (Raised JSONDecodeError))
   \<and> extract_citations sample_libs doc_plain = extract_loop sample_libs [] []"
proof -
  let ?bare = "Tag ''span'' [(''class'', AttrList [''citation''])] [NavigableString ''[1]'']"
  let ?link = "Tag ''span'' [(''class'', AttrList [''citation'']), (''data-src'', AttrStr ''refs.json'')]
                 [NavigableString ''a link'']"
  have f1: "find_all_citation_spans doc_no_payload = [] @ ([0, 0], ?bare) # [([0, 1], marker payload_smith)]"
    by code_simp
  have f2: "find_all_citation_spans doc_not_json
            = [] @ ([0, 0], marker payload_not_json) # [([0, 1], marker payload_smith)]"
    by code_simp
  have f3: "find_all_citation_spans doc_plain = [] @ ([0, 1], ?link) # []"
    by code_simp
  have pre: "extract_loop sample_libs [] [] = Inr []" by simp
  have a1: "attrs_getitem ?bare ''data-src'' = Inl (KeyError ''data-src'')" by simp
  have a2: "attrs_getitem (marker payload_not_json) ''data-src''
              = Inr (AttrStr (json_prefix @ payload_not_json))
            \<and> prefix json_prefix (json_prefix @ payload_not_json)
            \<and> decode_data_src sample_libs (AttrStr (json_prefix @ payload_not_json))
              = Inl (Raised JSONDecodeError)"
    by code_simp
  have a3: "attrs_getitem ?link ''data-src'' = Inr (AttrStr ''refs.json'')
            \<and> \<not> prefix json_prefix ''refs.json''"
    by code_simp
  from marker_without_decodable_payload[OF f1 pre,
      where e = "KeyError ''data-src''" and citation_style = "''harvard1''"] a1
  have 1: "add_citations_and_bibliography sample_libs doc_no_payload ''harvard1''
     = ([], Inl (KeyError ''data-src''))"
    by blast
  from marker_without_decodable_payload[OF f2 pre,
      where s = "json_prefix @ payload_not_json" and e = "Raised JSONDecodeError"
        and citation_style = "''harvard1''"] a2
  have 2: "add_citations_and_bibliography sample_libs doc_not_json ''harvard1''
     = ([], Inl (Raised JSONDecodeError))"
    by blast
  from marker_without_decodable_payload[OF f3 pre, where s = "''refs.json''"] a3
  have 3: "extract_citations sample_libs doc_plain = extract_loop sample_libs [] []"
    by blast
  from 1 2 3 show ?thesis by blast
qed

text \<open>
  The claim as written fails on both kinds of marker: the document with a citation span
  that has no \<^verbatim>\<open>data-src\<close> and the document with a marker whose payload is the base64
  of \<^verbatim>\<open>not json\<close> each end the run in an exception, with nothing recorded.
\<close>

theorem malformed_or_absent_payload_counterexample:
  "extract_citations sample_libs doc_no_payload = Inl (KeyError ''data-src'')
   \<and> add_citations_and_bibliography sample_libs doc_no_payload ''harvard1''
     = ([], Inl (KeyError ''data-src''))
   \<and> extract_citations sample_libs doc_not_json = Inl (Raised JSONDecodeError)
   \<and> add_citations_and_bibliography sample_libs doc_not_json ''harvard1''
     = ([], Inl (Raised JSONDecodeError))"
  by code_simp

section \<open>What a rewriting that returns has done to the tree\<close>

lemma assign_string_cite:
  "assign_string L (new_tag ''cite'' None []) v = Inr new
   \<Longrightarrow> \<exists>s. new = Tag ''cite'' [] [NavigableString s]"
  by (cases v) (auto simp: assign_string_def new_tag_def lib_def split: sum.splits)

lemma add_citations_loop_at_most:
  "length (fst (add_citations_loop L citations spans i R t))
   \<le> length (filter (\<lambda>(p, span). qualifies span) spans)"
proof (induction spans arbitrary: i R t)
  case Nil
  then show ?case by simp
next
  case (Cons a spans)
  obtain q sq where a: "a = (q, sq)" by (cases a)
  show ?case unfolding a
    using Cons.IH
    by (auto split: sum.splits bool.splits simp: split_beta qualifies_def le_SucI)
qed

lemma add_citations_loop_rewrites:
  "snd (add_citations_loop L citations spans i R t) = Inr t'
   \<Longrightarrow> doc_order (map fst spans)
   \<Longrightarrow> k < length (filter (\<lambda>(p, span). qualifies span) spans)
   \<Longrightarrow> filter (\<lambda>(p, span). qualifies span) spans ! k = (p, span)
   \<Longrightarrow> \<not> detached (R @ map fst (take k (filter (\<lambda>(p, span). qualifies span) spans))) p
   \<Longrightarrow> node_at t p \<noteq> None
   \<Longrightarrow> \<exists>properties v s.
         i + k < length citations
       \<and> getitem (citations ! (i + k)) ''properties'' = Inr properties
       \<and> getitem properties ''plainCitation'' = Inr v
       \<and> assign_string L (new_tag ''cite'' None []) v = Inr (Tag ''cite'' [] [NavigableString s])
       \<and> node_at t' p = Some (Tag ''cite'' [] [NavigableString s])"
proof (induction spans arbitrary: i R t k)
  case Nil
  then show ?case by simp
next
  case (Cons a spans)
  obtain q sq where a: "a = (q, sq)" by (cases a)
  let ?Q = "filter (\<lambda>(p, span). qualifies span) spans"
  from Cons.prems(2) have later: "\<forall>r\<in>set (map fst spans). \<not> prefix r q"
    and order: "doc_order (map fst spans)"
    by (simp_all add: a)
  show ?case
  proof (cases "has_inner_json_data sq")
    case (Inl e)
    with Cons.prems(1) show ?thesis by (simp add: a)
  next
    case (Inr b)
    show ?thesis
    proof (cases b)
      case False
      with Inr have nq: "\<not> qualifies sq" by (simp add: qualifies_def)
      from False Inr Cons.prems(1) have run: "snd (add_citations_loop L citations spans i R t) = Inr t'"
        by (simp add: a)
      from nq Cons.prems(3,4,5) have "k < length ?Q" "?Q ! k = (p, span)"
        "\<not> detached (R @ map fst (take k ?Q)) p"
        by (simp_all add: a)
      from Cons.IH[OF run order this Cons.prems(6)] show ?thesis .
    next
      case True
      with Inr have hq: "has_inner_json_data sq = Inr True" by simp
      then have qq: "qualifies sq" by (simp add: qualifies_def)
      from Cons.prems(1)[unfolded a] hq obtain citation props v new where
        step: "list_getitem citations i = Inr citation"
          "getitem citation ''properties'' = Inr props"
          "getitem props ''plainCitation'' = Inr v"
          "assign_string L (new_tag ''cite'' None []) v = Inr new"
        and run: "snd (add_citations_loop L citations spans (Suc i) (R @ [q])
                (if detached R q then t else replace_at t q new)) = Inr t'"
        by (rule add_citations_loop_step)
      show ?thesis
      proof (cases k)
        case 0
        with qq Cons.prems(4) have pq: "p = q" by (simp add: a)
        from 0 Cons.prems(5) have nd: "\<not> detached R q" by (simp add: pq)
        from step(1) have ci: "i < length citations" "citation = citations ! i"
          by (simp_all add: list_getitem_def split: if_splits)
        from assign_string_cite[OF step(4)] obtain s where
          new: "new = Tag ''cite'' [] [NavigableString s]" by blast
        from nd run have run': "snd (add_citations_loop L citations spans (Suc i) (R @ [q])
                (replace_at t q new)) = Inr t'"
          by simp
        have "q \<in> set (R @ [q])" by simp
        from add_citations_loop_keeps[OF run' this later]
        have "node_at t' q = node_at (replace_at t q new) q" .
        also from Cons.prems(6) have "\<dots> = Some new"
          unfolding pq by (rule node_at_replace_at_same)
        finally have "node_at t' p = Some (Tag ''cite'' [] [NavigableString s])"
          by (simp add: pq new)
        with 0 ci step(2,3,4) new show ?thesis by auto
      next
        case (Suc k')
        with qq Cons.prems(3,4) have k': "k' < length ?Q" "?Q ! k' = (p, span)"
          by (simp_all add: a)
        from Suc qq Cons.prems(5) have nd: "\<not> detached ((R @ [q]) @ map fst (take k' ?Q)) p"
          and nsp: "\<not> strict_prefix q p"
          by (simp_all add: a detached_append detached_Cons)
        from k' have "(p, span) \<in> set ?Q" by (metis nth_mem)
        then have "p \<in> set (map fst spans)" by force
        with later have npq: "\<not> prefix p q" by blast
        then have "p \<noteq> q" by auto
        with nsp have nqp: "\<not> prefix q p" by (auto simp: strict_prefix_def)
        from nqp npq have "node_at (replace_at t q new) p = node_at t p"
          by (rule node_at_replace_at_other)
        with Cons.prems(6)
        have valid: "node_at (if detached R q then t else replace_at t q new) p \<noteq> None"
          by simp
        from Cons.IH[OF run order k' nd valid] Suc show ?thesis by simp
      qed
    qed
  qed
qed

section \<open>Extraction and rewriting count the same markers\<close>

text \<open>
  C10, as the code has it. Extraction and rewriting walk the same spans with the same
  test. When extraction has returned the groups of a document, their number is the
  number of qualifying markers, the lookup \<^verbatim>\<open>citations[i]\<close> of the rewriting never raises
  \<^verbatim>\<open>IndexError\<close>, and the rewriting never calls \<^verbatim>\<open>replace_with\<close> more often than there are
  groups. A rewriting that returns has called it once for every group, and in the tree
  it returns every qualifying marker that does not lie inside an earlier qualifying
  marker has given its place to the \<^verbatim>\<open>cite\<close> element made from the \<^verbatim>\<open>plainCitation\<close> of its
  group.
\<close>

theorem rewriting_indices_in_bounds:
  assumes "extract_citations L html_soup = Inr citations"
  shows "length (qualifying_spans html_soup) = length citations
       \<and> snd (add_citations L html_soup citeproc_citations citations bib) \<noteq> Inl IndexError
       \<and> length (filter is_replace (fst (add_citations L html_soup citeproc_citations citations bib)))
           \<le> length citations
       \<and> (\<forall>html_soup'.
            snd (add_citations L html_soup citeproc_citations citations bib) = Inr html_soup'
            \<longrightarrow> length (filter is_replace (fst (add_citations L html_soup citeproc_citations citations bib)))
                = length citations
              \<and> (\<forall>i p span.
                    i < length citations
                  \<and> qualifying_spans html_soup ! i = (p, span)
                  \<and> \<not> detached (map fst (take i (qualifying_spans html_soup))) p
                  \<longrightarrow> (\<exists>properties v s.
                         getitem (citations ! i) ''properties'' = Inr properties
                       \<and> getitem properties ''plainCitation'' = Inr v
                       \<and> assign_string L (new_tag ''cite'' None []) v
                           = Inr (Tag ''cite'' [] [NavigableString s])
                       \<and> node_at html_soup p = Some span
                       \<and> node_at html_soup' p = Some (Tag ''cite'' [] [NavigableString s]))))"
proof -
  let ?run = "add_citations L html_soup citeproc_citations citations bib"
  from assms have len: "length citations = length (qualifying_spans html_soup)"
    by (simp add: extract_citations_def qualifying_spans_def extract_loop_length)
  then have noerr: "snd ?run \<noteq> Inl IndexError"
    unfolding add_citations_def qualifying_spans_def
    by (intro add_citations_loop_no_IndexError) simp
  have all: "filter is_replace (fst ?run) = fst ?run"
    unfolding add_citations_def using add_citations_loop_trace by (simp add: filter_id_conv)
  have le: "length (filter is_replace (fst ?run)) \<le> length citations"
    unfolding all len unfolding add_citations_def qualifying_spans_def
    by (rule add_citations_loop_at_most)
  have ret: "length (filter is_replace (fst ?run)) = length citations
           \<and> (\<forall>i p span.
                    i < length citations
                  \<and> qualifying_spans html_soup ! i = (p, span)
                  \<and> \<not> detached (map fst (take i (qualifying_spans html_soup))) p
                  \<longrightarrow> (\<exists>properties v s.
                         getitem (citations ! i) ''properties'' = Inr properties
                       \<and> getitem properties ''plainCitation'' = Inr v
                       \<and> assign_string L (new_tag ''cite'' None []) v
                           = Inr (Tag ''cite'' [] [NavigableString s])
                       \<and> node_at html_soup p = Some span
                       \<and> node_at html_soup' p = Some (Tag ''cite'' [] [NavigableString s])))"
    if r: "snd ?run = Inr html_soup'" for html_soup'
  proof (intro conjI allI impI)
    from r len show "length (filter is_replace (fst ?run)) = length citations"
      unfolding all unfolding add_citations_def qualifying_spans_def
      by (simp add: add_citations_loop_replaced)
  next
    fix i p span
    assume a: "i < length citations
                  \<and> qualifying_spans html_soup ! i = (p, span)
                  \<and> \<not> detached (map fst (take i (qualifying_spans html_soup))) p"
    with len have "(p, span) \<in> set (qualifying_spans html_soup)"
      by (metis nth_mem)
    then have "(p, span) \<in> set (find_all_citation_spans html_soup)"
      by (simp add: qualifying_spans_def)
    then have at: "node_at html_soup p = Some span" by (rule find_all_node_at)
    from a len r at find_all_doc_order[of html_soup]
      add_citations_loop_rewrites[of L citations "find_all_citation_spans html_soup" 0 "[]"
        html_soup html_soup' i p span]
    obtain properties v s where
      "getitem (citations ! i) ''properties'' = Inr properties"
      "getitem properties ''plainCitation'' = Inr v"
      "assign_string L (new_tag ''cite'' None []) v = Inr (Tag ''cite'' [] [NavigableString s])"
      "node_at html_soup' p = Some (Tag ''cite'' [] [NavigableString s])"
      by (auto simp: add_citations_def qualifying_spans_def)
    with at show "\<exists>properties v s.
                         getitem (citations ! i) ''properties'' = Inr properties
                       \<and> getitem properties ''plainCitation'' = Inr v
                       \<and> assign_string L (new_tag ''cite'' None []) v
                           = Inr (Tag ''cite'' [] [NavigableString s])
                       \<and> node_at html_soup p = Some span
                       \<and> node_at html_soup' p = Some (Tag ''cite'' [] [NavigableString s])"
      by blast
  qed
  from len noerr le ret show ?thesis by simp
qed

theorem rewriting_indices_in_bounds_witness:
  "extract_citations sample_libs doc_smith = Inr [group_smith]
   \<and> length (qualifying_spans doc_smith) = 1
   \<and> snd (add_citations sample_libs doc_smith [Citation [CitationItem ''A'']] [group_smith] ([''A''], [''A'']))
       \<noteq> Inl IndexError
   \<and> length (filter is_replace
        (fst (add_citations sample_libs doc_smith [Citation [CitationItem ''A'']] [group_smith]
               ([''A''], [''A''])))) = 1
   \<and> (\<exists>s. node_at [Tag ''p'' [] [NavigableString ''See '',
                                   Tag ''cite'' [] [NavigableString ''Smith 2020''],
                                   NavigableString ''.'']] [0, 1]
            = Some (Tag ''cite'' [] [NavigableString s]))"
proof -
  let ?run = "add_citations sample_libs doc_smith [Citation [CitationItem ''A'']] [group_smith]
                ([''A''], [''A''])"
  let ?out = "[Tag ''p'' [] [NavigableString ''See '',
                              Tag ''cite'' [] [NavigableString ''Smith 2020''],
                              NavigableString ''.'']]"
  have ex: "extract_citations sample_libs doc_smith = Inr [group_smith]"
    by code_simp
  have run: "snd ?run = Inr ?out"
    by code_simp
  have q: "qualifying_spans doc_smith = [([0, 1], marker payload_smith)]"
    by code_simp
  have at: "0 < length [group_smith]
            \<and> qualifying_spans doc_smith ! 0 = ([0, 1], marker payload_smith)
            \<and> \<not> detached (map fst (take 0 (qualifying_spans doc_smith))) [0, 1]"
    by (simp add: q detached_def)
  note inst = rewriting_indices_in_bounds[OF ex, of "[Citation [CitationItem ''A'']]" "([''A''], [''A''])"]
  from inst have 1: "length (qualifying_spans doc_smith) = length [group_smith]"
    and 2: "snd ?run \<noteq> Inl IndexError"
    by blast+
  from inst run have 3: "length (filter is_replace (fst ?run)) = length [group_smith]"
    by blast
  from inst run at have 4: "\<exists>s. node_at ?out [0, 1] = Some (Tag ''cite'' [] [NavigableString s])"
    by blast
  from ex 1 2 3 4 show ?thesis by simp
qed

text \<open>
  The claim as written fails on two documents with two markers each. On the first the
  second group has no \<^verbatim>\<open>properties\<close>: two groups are extracted, one marker is replaced,
  and the rewriting raises \<^verbatim>\<open>KeyError\<close>. On the second the second marker lies inside the
  first: two groups are extracted, and the tree returned holds one \<^verbatim>\<open>cite\<close> element.
\<close>

theorem markers_rewritten_counterexample:
  "extract_citations sample_libs doc_no_properties = Inr [group_smith, group_no_properties]
   \<and> add_citations sample_libs doc_no_properties
        [Citation [CitationItem ''A''], Citation [CitationItem ''A'']]
        [group_smith, group_no_properties] ([''A''], [''A'', ''A''])
     = ([ReplaceWith [0, 0] (Tag ''cite'' [] [NavigableString ''Smith 2020''])],
        Inl (KeyError ''properties''))
   \<and> extract_citations sample_libs doc_nested = Inr [group_smith, group_untitled]
   \<and> snd (add_citations sample_libs doc_nested
        [Citation [CitationItem ''A''], Citation [CitationItem ''B'']]
        [group_smith, group_untitled] ([''A''], [''A'']))
     = Inr [Tag ''p'' [] [Tag ''cite'' [] [NavigableString ''Smith 2020'']]]"
  by code_simp

section \<open>No warning for a reference that the source does not have\<close>

text \<open>
  C5, as the code has it. Whatever the source of the style engine holds, no run prints a
  warning or calls \<^verbatim>\<open>cite\<close>; and when the groups of a document are extracted and each has
  a string as its \<^verbatim>\<open>plainCitation\<close>, \<^verbatim>\<open>add_citations\<close> returns without raising, having
  called \<^verbatim>\<open>replace_with\<close> on the qualifying markers in document order, and in the tree it
  returns every qualifying marker that does not lie inside an earlier qualifying marker
  has given its place to a \<^verbatim>\<open>cite\<close> element that holds the \<^verbatim>\<open>plainCitation\<close> of its group
  as it is.
\<close>

theorem plain_citation_rendered_without_warning:
  "(\<forall>ev\<in>set (fst (add_citations_and_bibliography L html_soup citation_style)).
      \<not> is_print ev \<and> \<not> is_cite ev)
   \<and> (extract_citations L html_soup = Inr citations
      \<and> map plain_citation citations = map Some texts
      \<longrightarrow> (\<exists>html_soup'.
             add_citations L html_soup citeproc_citations citations bib
             = (map2 (\<lambda>(p, span) s. ReplaceWith p (Tag ''cite'' [] [NavigableString s]))
                  (qualifying_spans html_soup) texts,
                Inr html_soup')
           \<and> (\<forall>i p span.
                 i < length citations
               \<and> qualifying_spans html_soup ! i = (p, span)
               \<and> \<not> detached (map fst (take i (qualifying_spans html_soup))) p
               \<longrightarrow> node_at html_soup p = Some span
                 \<and> node_at html_soup' p = Some (Tag ''cite'' [] [NavigableString (texts ! i)]))))"
proof (intro conjI impI)
  show "\<forall>ev\<in>set (fst (add_citations_and_bibliography L html_soup citation_style)).
      \<not> is_print ev \<and> \<not> is_cite ev"
    by (rule pipeline_never_prints)
next
  assume a: "extract_citations L html_soup = Inr citations
      \<and> map plain_citation citations = map Some texts"
  then have ex: "extract_loop L (find_all_citation_spans html_soup) [] = Inr citations"
    and tx: "map plain_citation (drop (length ([] :: json list)) citations) = map Some texts"
    by (simp_all add: extract_citations_def)
  from extract_loop_length[OF ex]
  have len: "length citations = length (qualifying_spans html_soup)"
    by (simp add: qualifying_spans_def)
  from a have lt: "length texts = length citations"
    by (metis length_map)
  from add_citations_loop_plain[OF ex tx, of "[]" html_soup]
  obtain html_soup' where run:
    "add_citations L html_soup citeproc_citations citations bib
             = (map2 (\<lambda>(p, span) s. ReplaceWith p (Tag ''cite'' [] [NavigableString s]))
                  (qualifying_spans html_soup) texts,
                Inr html_soup')"
    by (auto simp: add_citations_def qualifying_spans_def)
  have "node_at html_soup p = Some span
      \<and> node_at html_soup' p = Some (Tag ''cite'' [] [NavigableString (texts ! i)])"
    if b: "i < length citations \<and> qualifying_spans html_soup ! i = (p, span)
         \<and> \<not> detached (map fst (take i (qualifying_spans html_soup))) p"
    for i p span
  proof -
    from b len have "(p, span) \<in> set (qualifying_spans html_soup)"
      by (metis nth_mem)
    then have "(p, span) \<in> set (find_all_citation_spans html_soup)"
      by (simp add: qualifying_spans_def)
    then have at: "node_at html_soup p = Some span" by (rule find_all_node_at)
    from a b have "map plain_citation citations ! i = map Some texts ! i" by simp
    with b lt have pl: "plain_citation (citations ! i) = Some (texts ! i)" by simp
    from run have "snd (add_citations L html_soup citeproc_citations citations bib) = Inr html_soup'"
      by simp
    with b len at pl find_all_doc_order[of html_soup]
      add_citations_loop_replaces[of L citations "find_all_citation_spans html_soup" 0 "[]"
        html_soup html_soup' i p span "texts ! i"]
    have "node_at html_soup' p = Some (Tag ''cite'' [] [NavigableString (texts ! i)])"
      by (simp add: add_citations_def qualifying_spans_def)
    with at show ?thesis by simp
  qed
  with run show "\<exists>html_soup'.
             add_citations L html_soup citeproc_citations citations bib
             = (map2 (\<lambda>(p, span) s. ReplaceWith p (Tag ''cite'' [] [NavigableString s]))
                  (qualifying_spans html_soup) texts,
                Inr html_soup')
           \<and> (\<forall>i p span.
                 i < length citations
               \<and> qualifying_spans html_soup ! i = (p, span)
               \<and> \<not> detached (map fst (take i (qualifying_spans html_soup))) p
               \<longrightarrow> node_at html_soup p = Some span
                 \<and> node_at html_soup' p = Some (Tag ''cite'' [] [NavigableString (texts ! i)]))"
    by blast
qed

theorem plain_citation_rendered_without_warning_witness:
  "extract_citations sample_libs doc_untitled = Inr [group_untitled]
   \<and> map plain_citation [group_untitled] = map Some [''Smith 2020'']
   \<and> filter is_print (fst (add_citations_and_bibliography sample_libs doc_untitled ''harvard1'')) = []
   \<and> (\<exists>html_soup'.
        add_citations sample_libs doc_untitled [Citation [CitationItem ''B'']] [group_untitled] ([], [])
        = ([ReplaceWith [0, 1] (Tag ''cite'' [] [NavigableString ''Smith 2020''])], Inr html_soup')
      \<and> node_at html_soup' [0, 1] = Some (Tag ''cite'' [] [NavigableString ''Smith 2020'']))"
proof -
  have ex: "extract_citations sample_libs doc_untitled = Inr [group_untitled]"
    by code_simp
  have pl: "map plain_citation [group_untitled] = map Some [''Smith 2020'']"
    by code_simp
  have q: "qualifying_spans doc_untitled = [([0, 1], marker payload_untitled)]"
    by code_simp
  have at: "0 < length [group_untitled]
            \<and> qualifying_spans doc_untitled ! 0 = ([0, 1], marker payload_untitled)
            \<and> \<not> detached (map fst (take 0 (qualifying_spans doc_untitled))) [0, 1]"
    by (simp add: q detached_def)
  note inst = plain_citation_rendered_without_warning
    [of sample_libs doc_untitled "''harvard1''" "[group_untitled]" "[''Smith 2020'']"
        "[Citation [CitationItem ''B'']]" "([], [])"]
  from inst have "\<forall>ev\<in>set (fst (add_citations_and_bibliography sample_libs doc_untitled ''harvard1'')).
      \<not> is_print ev"
    by blast
  then have 1: "filter is_print (fst (add_citations_and_bibliography sample_libs doc_untitled ''harvard1'')) = []"
    by (simp add: filter_empty_conv)
  from inst ex pl obtain html_soup' where run:
    "add_citations sample_libs doc_untitled [Citation [CitationItem ''B'']] [group_untitled] ([], [])
     = (map2 (\<lambda>(p, span) s. ReplaceWith p (Tag ''cite'' [] [NavigableString s]))
          (qualifying_spans doc_untitled) [''Smith 2020''], Inr html_soup')"
    and tree: "\<forall>i p span.
                 i < length [group_untitled]
               \<and> qualifying_spans doc_untitled ! i = (p, span)
               \<and> \<not> detached (map fst (take i (qualifying_spans doc_untitled))) p
               \<longrightarrow> node_at doc_untitled p = Some span
                 \<and> node_at html_soup' p = Some (Tag ''cite'' [] [NavigableString ([''Smith 2020''] ! i)])"
    by blast
  from tree at have "node_at html_soup' [0, 1] = Some (Tag ''cite'' [] [NavigableString ([''Smith 2020''] ! 0)])"
    by blast
  with run have 2: "\<exists>html_soup'.
        add_citations sample_libs doc_untitled [Citation [CitationItem ''B'']] [group_untitled] ([], [])
        = ([ReplaceWith [0, 1] (Tag ''cite'' [] [NavigableString ''Smith 2020''])], Inr html_soup')
      \<and> node_at html_soup' [0, 1] = Some (Tag ''cite'' [] [NavigableString ''Smith 2020''])"
    by (simp add: q)
  from ex pl 1 2 show ?thesis by blast
qed

text \<open>
  The claim as written fails on the document whose one group cites \<^verbatim>\<open>B\<close>, a key that
  the sample source does not hold: the marker is replaced by the plain citation, and the
  run has printed nothing.
\<close>

theorem missing_reference_warning_counterexample:
  "CiteProcJSON sample_libs [JObj [(''id'', JStr ''B'')]] = Inr []
   \<and> add_citations_and_bibliography sample_libs doc_untitled ''harvard1''
     = ([CallCiteProcJSON [JObj [(''id'', JStr ''B'')]],
         CallCitationStylesStyle ''harvard1'', CallCitationStylesBibliography,
         CallRegister (Citation [CitationItem ''B'']),
         ReplaceWith [0, 1] (Tag ''cite'' [] [NavigableString ''Smith 2020'']),
         CallBibliography],
        Inr [Tag ''p'' [] [NavigableString ''See '',
                            Tag ''cite'' [] [NavigableString ''Smith 2020'']]])
   \<and> length (filter is_print (fst (add_citations_and_bibliography sample_libs doc_untitled ''harvard1''))) \<noteq> 1"
  by code_simp

end
